theory Spec2Isabelle
  imports Main "HOL-Library.Word" "HOL-Library.Sublist"
begin

unbundle bit_operations_syntax

section \<open>Data model\<close>

text \<open>
  Python \<^verbatim>\<open>bytes\<close> are lists of 8-bit words. A Python \<^verbatim>\<open>str\<close> is a list of
  Unicode code points. Exceptions are values of \<open>py_error\<close>; a computation that may
  raise returns \<open>py_error + 'a\<close> with \<open>Inl\<close> for the exception.

  Calls of \<^verbatim>\<open>messagebox.showerror(title, text)\<close> and \<^verbatim>\<open>messagebox.showinfo(title, text)\<close>
  are recorded, in order, as a list of \<open>message\<close> values. A text is a list of parts:
  a literal, or \<open>Str e\<close> for \<^verbatim>\<open>str(e)\<close> of a caught exception \<open>e\<close> inside an f-string.
\<close>

type_synonym byte = "8 word"
type_synonym bytes = "byte list"
type_synonym py_str = "nat list"

datatype py_error =
    IndexError
  | ValueError string
  | AssertionError
  | UnicodeEncodeError
  | FileNotFoundError
  | IsADirectoryError
  | InvalidSignature

datatype text_part = Lit string | Str py_error

datatype message = ShowError string "text_part list" | ShowInfo string "text_part list"

text \<open>
  The four \<^verbatim>\<open>tk.StringVar\<close> globals of PAdES-app, read with \<^verbatim>\<open>.get()\<close>.
\<close>

record app_state =
  pdf_path :: py_str
  private_key_path :: py_str
  public_key_path :: py_str
  pin :: py_str

text \<open>
  The file system as the programs use it: a path names a regular file with its bytes, a
  directory, or nothing. \<^verbatim>\<open>os.path.exists\<close> holds for files and directories;
  \<^verbatim>\<open>open(path, "rb").read()\<close> raises for a missing path and for a directory;
  \<^verbatim>\<open>open(path, "wb")\<close> followed by writes replaces or creates the file. Permissions,
  missing parent directories and other failures of the operating system are not modelled.
\<close>

datatype fs_entry = File bytes | Directory

type_synonym filesystem = "py_str \<rightharpoonup> fs_entry"

definition path_exists :: "filesystem \<Rightarrow> py_str \<Rightarrow> bool" where
  "path_exists fs path = (fs path \<noteq> None)"

definition open_read :: "filesystem \<Rightarrow> py_str \<Rightarrow> py_error + bytes" where
  "open_read fs path =
     (case fs path of
        None \<Rightarrow> Inl FileNotFoundError
      | Some Directory \<Rightarrow> Inl IsADirectoryError
      | Some (File data) \<Rightarrow> Inr data)"

definition open_write :: "filesystem \<Rightarrow> py_str \<Rightarrow> bytes \<Rightarrow> py_error + filesystem" where
  "open_write fs path data =
     (case fs path of
        Some Directory \<Rightarrow> Inl IsADirectoryError
      | _ \<Rightarrow> Inr (fs(path \<mapsto> File data)))"

section \<open>Python built-ins on strings and bytes\<close>

text \<open>
  \<^verbatim>\<open>str.encode()\<close>: UTF-8. A surrogate code point raises UnicodeEncodeError; a value
  of 0x110000 or more is not a code point of any Python string.
\<close>

definition utf8_char :: "nat \<Rightarrow> py_error + bytes" where
  "utf8_char c =
     (if c < 0x80 then Inr [of_nat c]
      else if c < 0x800 then Inr [of_nat (0xC0 + c div 0x40), of_nat (0x80 + c mod 0x40)]
      else if 0xD800 \<le> c \<and> c < 0xE000 then Inl UnicodeEncodeError
      else if c < 0x10000 then
        Inr [of_nat (0xE0 + c div 0x1000), of_nat (0x80 + c div 0x40 mod 0x40),
             of_nat (0x80 + c mod 0x40)]
      else if c < 0x110000 then
        Inr [of_nat (0xF0 + c div 0x40000), of_nat (0x80 + c div 0x1000 mod 0x40),
             of_nat (0x80 + c div 0x40 mod 0x40), of_nat (0x80 + c mod 0x40)]
      else Inl UnicodeEncodeError)"

fun str_encode :: "py_str \<Rightarrow> py_error + bytes" where
  "str_encode [] = Inr []"
| "str_encode (c # cs) =
     (case utf8_char c of
        Inl e \<Rightarrow> Inl e
      | Inr b \<Rightarrow> (case str_encode cs of Inl e \<Rightarrow> Inl e | Inr bs \<Rightarrow> Inr (b @ bs)))"

text \<open>
  \<^verbatim>\<open>data.find(sep)\<close>: the lowest index at which \<open>sep\<close> occurs, \<open>None\<close> for Python's -1.
\<close>

fun bytes_find :: "'a list \<Rightarrow> 'a list \<Rightarrow> nat option" where
  "bytes_find sep [] = (if sep = [] then Some 0 else None)"
| "bytes_find sep (x # xs) =
     (if prefix sep (x # xs) then Some 0 else map_option Suc (bytes_find sep xs))"

text \<open>The operator \<^verbatim>\<open>sep in data\<close>: \<open>sep\<close> occurs in \<open>data\<close> as a contiguous run.\<close>

definition bytes_contains :: "'a list \<Rightarrow> 'a list \<Rightarrow> bool" where
  "bytes_contains sep s = (bytes_find sep s \<noteq> None)"

text \<open>
  \<^verbatim>\<open>data.split(sep)\<close> with no \<^verbatim>\<open>maxsplit\<close>: the pieces between all non-overlapping
  occurrences of \<open>sep\<close>, found left to right. Python raises ValueError for an empty
  separator; the only separator the program passes is the non-empty marker, and the
  loop below returns the input unsplit for an empty one to stay total.
\<close>

function bytes_split :: "'a list \<Rightarrow> 'a list \<Rightarrow> 'a list list" where
  "bytes_split sep s =
     (if sep = [] then [s]
      else case bytes_find sep s of
             None \<Rightarrow> [s]
           | Some i \<Rightarrow> take i s # bytes_split sep (drop (i + length sep) s))"
  by pat_completeness auto
termination
proof (relation "measure (\<lambda>(sep, s). length s)")
  show "wf (measure (\<lambda>(sep :: 'a list, s :: 'a list). length s))"
    by simp
next
  fix sep s :: "'a list" and i :: nat
  assume "sep \<noteq> []" and "bytes_find sep s = Some i"
  then have "s \<noteq> []"
    by (cases s) auto
  with \<open>sep \<noteq> []\<close> have "length s - (i + length sep) < length s"
    by (cases s; cases sep) auto
  then show "((sep, drop (i + length sep) s), (sep, s)) \<in> measure (\<lambda>(sep, s). length s)"
    by simp
qed

declare bytes_split.simps [simp del]

text \<open>
  \<^verbatim>\<open>s.replace(old, new)\<close>: every non-overlapping occurrence of \<open>old\<close>, left to right,
  becomes \<open>new\<close>. The program's \<open>old\<close> is the non-empty \<^verbatim>\<open>".pdf"\<close>; for an empty one
  the loop returns the input to stay total.
\<close>

function str_replace :: "'a list \<Rightarrow> 'a list \<Rightarrow> 'a list \<Rightarrow> 'a list" where
  "str_replace old new s =
     (if old = [] then s
      else case bytes_find old s of
             None \<Rightarrow> s
           | Some i \<Rightarrow> take i s @ new @ str_replace old new (drop (i + length old) s))"
  by pat_completeness auto
termination
proof (relation "measure (\<lambda>(old, new, s). length s)")
  show "wf (measure (\<lambda>(old :: 'a list, new :: 'a list, s :: 'a list). length s))"
    by simp
next
  fix old new s :: "'a list" and i :: nat
  assume "old \<noteq> []" and "bytes_find old s = Some i"
  then have "s \<noteq> []"
    by (cases s) auto
  with \<open>old \<noteq> []\<close> have "length s - (i + length old) < length s"
    by (cases s; cases old) auto
  then show "((old, new, drop (i + length old) s), (old, new, s))
               \<in> measure (\<lambda>(old, new, s). length s)"
    by simp
qed

declare str_replace.simps [simp del]

section \<open>The cryptography package\<close>

text \<open>
  The functions of this section are not code of the repository: they are the calls the
  two programs make into the \<^verbatim>\<open>cryptography\<close> package. The primitives themselves
  (the hash functions, the AES block cipher, the RSA-PSS signature over a digest, the
  PEM parsers) are parameters, collected in the record \<open>crypto\<close>. What the package does
  around them (argument checks, PKCS7 padding, CBC chaining, hashing of the data to
  sign, the choice of the salt length) is written out after the package's documented
  behaviour, with its exceptions as \<open>Inl\<close> values.
\<close>

datatype hash_algorithm = SHA1 | SHA256 | SHA512

fun digest_size :: "hash_algorithm \<Rightarrow> nat" where
  "digest_size SHA1 = 20"
| "digest_size SHA256 = 32"
| "digest_size SHA512 = 64"

text \<open>
  The third argument of \<^verbatim>\<open>sign\<close> and \<^verbatim>\<open>verify\<close>: a hash algorithm, with which the
  package hashes the data itself, or \<^verbatim>\<open>Prehashed(algorithm)\<close>, with which the data
  is taken as the digest.
\<close>

datatype sign_algorithm = Hash hash_algorithm | Prehashed hash_algorithm

datatype mgf = MGF1 hash_algorithm

datatype salt_length = MAX_LENGTH | DIGEST_LENGTH | SaltLength nat

datatype asym_padding = PSS mgf salt_length

record ('priv, 'pub) crypto =
  hash :: "hash_algorithm \<Rightarrow> bytes \<Rightarrow> bytes"
  aes_encrypt_block :: "bytes \<Rightarrow> bytes \<Rightarrow> bytes"
  aes_decrypt_block :: "bytes \<Rightarrow> bytes \<Rightarrow> bytes"
  private_key_size :: "'priv \<Rightarrow> nat"
  public_key_size :: "'pub \<Rightarrow> nat"
  rsa_pss_sign_digest :: "'priv \<Rightarrow> hash_algorithm \<Rightarrow> hash_algorithm \<Rightarrow> nat \<Rightarrow> bytes \<Rightarrow> bytes \<Rightarrow> bytes"
  rsa_pss_verify_digest :: "'pub \<Rightarrow> hash_algorithm \<Rightarrow> hash_algorithm \<Rightarrow> nat \<Rightarrow> bytes \<Rightarrow> bytes \<Rightarrow> bool"
  load_pem_private_key :: "bytes \<Rightarrow> py_error + 'priv"
  load_pem_public_key :: "bytes \<Rightarrow> py_error + 'pub"

text \<open>
  The fields: \<open>hash L a data\<close> is \<^verbatim>\<open>hashes.Hash(a)\<close> updated with \<open>data\<close> and finalized;
  \<open>aes_encrypt_block L key block\<close> and \<open>aes_decrypt_block L key block\<close> are AES on one
  16-byte block; \<open>private_key_size\<close> and \<open>public_key_size\<close> are \<^verbatim>\<open>key.key_size\<close>, the
  bit length of the modulus; \<open>rsa_pss_sign_digest L key mgf_hash digest_hash salt_len
  digest rand\<close> is the RSASSA-PSS signature of an already computed \<open>digest\<close>, \<open>rand\<close> being
  the random salt the package draws; \<open>rsa_pss_verify_digest L key mgf_hash digest_hash
  salt_len signature digest\<close> is its verification.
\<close>

subsection \<open>PKCS7 padding\<close>

text \<open>
  \<^verbatim>\<open>padding.PKCS7(block_size).padder()\<close>, \<^verbatim>\<open>update(data) + finalize()\<close>: appends \<open>n\<close>
  bytes of value \<open>n\<close>, with \<open>n\<close> between 1 and the block length in bytes, up to the
  next block boundary. \<open>block_size\<close> is in bits.
\<close>

definition pkcs7_pad :: "nat \<Rightarrow> bytes \<Rightarrow> bytes" where
  "pkcs7_pad block_size data =
     (let bs = block_size div 8; n = bs - length data mod bs
      in data @ replicate n (of_nat n))"

text \<open>
  \<^verbatim>\<open>padding.PKCS7(block_size).unpadder()\<close>, \<^verbatim>\<open>update(data) + finalize()\<close>: the data must
  be a positive number of whole blocks, its last byte \<open>n\<close> must be between 1 and the block
  length, and the last \<open>n\<close> bytes must all be \<open>n\<close>; they are removed. Anything else
  raises \<^verbatim>\<open>ValueError("Invalid padding bytes.")\<close>.
\<close>

definition pkcs7_unpad :: "nat \<Rightarrow> bytes \<Rightarrow> py_error + bytes" where
  "pkcs7_unpad block_size data =
     (let bs = block_size div 8 in
      if data = [] \<or> length data mod bs \<noteq> 0 then Inl (ValueError ''Invalid padding bytes.'')
      else
        let n = unat (last data) in
        if n = 0 \<or> bs < n \<or> drop (length data - n) data \<noteq> replicate n (last data)
        then Inl (ValueError ''Invalid padding bytes.'')
        else Inr (take (length data - n) data))"

subsection \<open>AES in CBC mode\<close>

definition xor_bytes :: "bytes \<Rightarrow> bytes \<Rightarrow> bytes" where
  "xor_bytes a b = map2 (XOR) a b"

text \<open>
  CBC over whole 16-byte blocks: each plaintext block is XORed with the previous
  ciphertext block (the IV for the first) and encrypted; decryption undoes it.
\<close>

function cbc_encrypt :: "(bytes \<Rightarrow> bytes) \<Rightarrow> bytes \<Rightarrow> bytes \<Rightarrow> bytes" where
  "cbc_encrypt enc prev data =
     (if data = [] then []
      else let c = enc (xor_bytes prev (take 16 data))
           in c @ cbc_encrypt enc c (drop 16 data))"
  by pat_completeness auto
termination
  by (relation "measure (\<lambda>(enc, prev, data). length data)") auto

declare cbc_encrypt.simps [simp del]

function cbc_decrypt :: "(bytes \<Rightarrow> bytes) \<Rightarrow> bytes \<Rightarrow> bytes \<Rightarrow> bytes" where
  "cbc_decrypt dec prev data =
     (if data = [] then []
      else let c = take 16 data
           in xor_bytes prev (dec c) @ cbc_decrypt dec c (drop 16 data))"
  by pat_completeness auto
termination
  by (relation "measure (\<lambda>(dec, prev, data). length data)") auto

declare cbc_decrypt.simps [simp del]

text \<open>
  \<^verbatim>\<open>Cipher(algorithms.AES(key), modes.CBC(iv))\<close> with \<^verbatim>\<open>encryptor()\<close> or
  \<^verbatim>\<open>decryptor()\<close>, then \<^verbatim>\<open>update(data) + finalize()\<close>. The package raises unless
  the key has 16, 24 or 32 bytes, unless the IV has 16 bytes, and, in \<^verbatim>\<open>finalize\<close>,
  unless the data is a whole number of blocks. The texts of the first two exceptions are
  shortened here (the package's also name the size); no caller reads them.
\<close>

definition aes_cbc_check :: "bytes \<Rightarrow> bytes \<Rightarrow> bytes \<Rightarrow> py_error option" where
  "aes_cbc_check key iv data =
     (if length key \<notin> {16, 24, 32} then Some (ValueError ''Invalid key size for AES.'')
      else if length iv \<noteq> 16 then Some (ValueError ''Invalid IV size for CBC.'')
      else if length data mod 16 \<noteq> 0 then
        Some (ValueError
          ''The length of the provided data is not a multiple of the block length.'')
      else None)"

definition aes_cbc_encrypt ::
  "('priv, 'pub) crypto \<Rightarrow> bytes \<Rightarrow> bytes \<Rightarrow> bytes \<Rightarrow> py_error + bytes" where
  "aes_cbc_encrypt L key iv data =
     (case aes_cbc_check key iv data of
        Some e \<Rightarrow> Inl e
      | None \<Rightarrow> Inr (cbc_encrypt (aes_encrypt_block L key) iv data))"

definition aes_cbc_decrypt ::
  "('priv, 'pub) crypto \<Rightarrow> bytes \<Rightarrow> bytes \<Rightarrow> bytes \<Rightarrow> py_error + bytes" where
  "aes_cbc_decrypt L key iv data =
     (case aes_cbc_check key iv data of
        Some e \<Rightarrow> Inl e
      | None \<Rightarrow> Inr (cbc_decrypt (aes_decrypt_block L key) iv data))"

subsection \<open>RSA signatures with PSS padding\<close>

text \<open>
  The package's \<^verbatim>\<open>calculate_max_pss_salt_length(key, hash_algorithm)\<close>: with
  \<open>emlen\<close> the byte length of the encoded message, \<open>ceil((key_size - 1) / 8)\<close>, the
  largest salt is \<open>emlen - digest_size - 2\<close>; the package asserts that it is not
  negative.
\<close>

definition calculate_max_pss_salt_length :: "nat \<Rightarrow> hash_algorithm \<Rightarrow> py_error + nat" where
  "calculate_max_pss_salt_length key_size h =
     (let emlen = (key_size + 6) div 8 in
      if emlen < digest_size h + 2 then Inl AssertionError
      else Inr (emlen - digest_size h - 2))"

definition get_rsa_pss_salt_length ::
  "asym_padding \<Rightarrow> nat \<Rightarrow> hash_algorithm \<Rightarrow> py_error + nat" where
  "get_rsa_pss_salt_length pad key_size h =
     (case pad of
        PSS _ MAX_LENGTH \<Rightarrow> calculate_max_pss_salt_length key_size h
      | PSS _ DIGEST_LENGTH \<Rightarrow> Inr (digest_size h)
      | PSS _ (SaltLength n) \<Rightarrow> Inr n)"

text \<open>
  The digest the signature is computed over: the hash of the data, unless the algorithm
  is \<^verbatim>\<open>Prehashed\<close>, in which case the data must already have the digest's length.
\<close>

definition calculate_digest ::
  "('priv, 'pub) crypto \<Rightarrow> bytes \<Rightarrow> sign_algorithm \<Rightarrow> py_error + bytes \<times> hash_algorithm" where
  "calculate_digest L data algorithm =
     (case algorithm of
        Hash h \<Rightarrow> Inr (hash L h data, h)
      | Prehashed h \<Rightarrow>
          if length data \<noteq> digest_size h
          then Inl (ValueError
            ''The provided data must be the same length as the hash algorithm's digest size.'')
          else Inr (data, h))"

text \<open>\<^verbatim>\<open>private_key.sign(data, padding, algorithm)\<close>; \<open>rand\<close> is the salt drawn.\<close>

definition rsa_sign ::
  "('priv, 'pub) crypto \<Rightarrow> 'priv \<Rightarrow> bytes \<Rightarrow> asym_padding \<Rightarrow> sign_algorithm \<Rightarrow> bytes
     \<Rightarrow> py_error + bytes" where
  "rsa_sign L key data pad algorithm rand =
     (case calculate_digest L data algorithm of
        Inl e \<Rightarrow> Inl e
      | Inr (digest, h) \<Rightarrow>
          (case get_rsa_pss_salt_length pad (private_key_size L key) h of
             Inl e \<Rightarrow> Inl e
           | Inr n \<Rightarrow>
               (case pad of
                  PSS (MGF1 m) _ \<Rightarrow> Inr (rsa_pss_sign_digest L key m h n digest rand))))"

text \<open>
  \<^verbatim>\<open>public_key.verify(signature, data, padding, algorithm)\<close>: returns \<^verbatim>\<open>None\<close> when
  the signature is valid and raises \<^verbatim>\<open>InvalidSignature\<close> when it is not.
\<close>

definition rsa_verify ::
  "('priv, 'pub) crypto \<Rightarrow> 'pub \<Rightarrow> bytes \<Rightarrow> bytes \<Rightarrow> asym_padding \<Rightarrow> sign_algorithm
     \<Rightarrow> py_error + unit" where
  "rsa_verify L key signature data pad algorithm =
     (case calculate_digest L data algorithm of
        Inl e \<Rightarrow> Inl e
      | Inr (digest, h) \<Rightarrow>
          (case get_rsa_pss_salt_length pad (public_key_size L key) h of
             Inl e \<Rightarrow> Inl e
           | Inr n \<Rightarrow>
               (case pad of
                  PSS (MGF1 m) _ \<Rightarrow>
                    if rsa_pss_verify_digest L key m h n signature digest
                    then Inr ()
                    else Inl InvalidSignature)))"

section \<open>RSAKeysGenerator/main.py\<close>

text \<open>
  \<^verbatim>\<open>encrypt_private_key(private_key_pem, pin)\<close>. The argument \<open>iv\<close> is the value that
  \<^verbatim>\<open>os.urandom(16)\<close> returns in this call.
\<close>

definition encrypt_private_key ::
  "('priv, 'pub) crypto \<Rightarrow> bytes \<Rightarrow> bytes \<Rightarrow> py_str \<Rightarrow> py_error + bytes" where
  "encrypt_private_key L iv private_key_pem pin_str =
     (case str_encode pin_str of
        Inl e \<Rightarrow> Inl e
      | Inr pin_bytes \<Rightarrow>
          let pin_aes_key = hash L SHA256 pin_bytes;
              padded_private_key_pem = pkcs7_pad 128 private_key_pem
          in case aes_cbc_encrypt L pin_aes_key iv padded_private_key_pem of
               Inl e \<Rightarrow> Inl e
             | Inr encrypted_private_key \<Rightarrow> Inr (iv @ encrypted_private_key))"

text \<open>
  The PINs that \<^verbatim>\<open>on_generate_button_click\<close> lets through and the spec calls valid:
  exactly six characters, each an ASCII digit.
\<close>

definition six_digit_pin :: "py_str \<Rightarrow> bool" where
  "six_digit_pin p = (length p = 6 \<and> list_all (\<lambda>c. 0x30 \<le> c \<and> c \<le> 0x39) p)"

section \<open>PAdES-app/main.py\<close>

text \<open>The marker literal \<^verbatim>\<open>b"\n%%PAdES_SIGNATURE%%\n"\<close>, byte by byte.\<close>

definition marker :: bytes where
  "marker = [0x0A, 0x25, 0x25, 0x50, 0x41, 0x64, 0x45, 0x53, 0x5F, 0x53, 0x49,
             0x47, 0x4E, 0x41, 0x54, 0x55, 0x52, 0x45, 0x25, 0x25, 0x0A]"

text \<open>A string literal of the source, as code points.\<close>

definition str_lit :: "string \<Rightarrow> py_str" where
  "str_lit s = map of_char s"

text \<open>
  \<^verbatim>\<open>decrypt_private_key()\<close>: reads the globals \<^verbatim>\<open>private_key_path\<close> and \<^verbatim>\<open>pin\<close> and
  the key file.
\<close>

definition decrypt_private_key ::
  "('priv, 'pub) crypto \<Rightarrow> filesystem \<Rightarrow> app_state \<Rightarrow> py_error + bytes" where
  "decrypt_private_key L fs st =
     (let pin_str = pin st in
      case open_read fs (private_key_path st) of
        Inl e \<Rightarrow> Inl e
      | Inr encrypted_private_key_with_iv \<Rightarrow>
          let iv = take 16 encrypted_private_key_with_iv;
              encrypted_private_key = drop 16 encrypted_private_key_with_iv
          in case str_encode pin_str of
               Inl e \<Rightarrow> Inl e
             | Inr pin_bytes \<Rightarrow>
                 let pin_aes_key = hash L SHA256 pin_bytes
                 in case aes_cbc_decrypt L pin_aes_key iv encrypted_private_key of
                      Inl e \<Rightarrow> Inl e
                    | Inr decrypted_data \<Rightarrow> pkcs7_unpad 128 decrypted_data)"

text \<open>
  \<^verbatim>\<open>sign_pdf(private_key)\<close>: hashes the file's content, signs the hash, and writes the
  content, the marker and the signature to the output path. \<open>rand\<close> is the salt the
  package draws for this signature. \<^verbatim>\<open>asym_padding.MGF1.MAX_LENGTH\<close> is the package's
  sentinel for the maximal salt length, the same as \<^verbatim>\<open>PSS.MAX_LENGTH\<close>.
\<close>

definition sign_pdf ::
  "('priv, 'pub) crypto \<Rightarrow> filesystem \<Rightarrow> app_state \<Rightarrow> 'priv \<Rightarrow> bytes
     \<Rightarrow> py_error + filesystem" where
  "sign_pdf L fs st private_key rand =
     (case open_read fs (pdf_path st) of
        Inl e \<Rightarrow> Inl e
      | Inr content \<Rightarrow>
          let pdf_hash = hash L SHA256 content
          in case rsa_sign L private_key pdf_hash (PSS (MGF1 SHA256) MAX_LENGTH)
                    (Hash SHA256) rand of
               Inl e \<Rightarrow> Inl e
             | Inr signature \<Rightarrow>
                 let output_path =
                       str_replace (str_lit ''.pdf'') (str_lit ''_signed.pdf'') (pdf_path st)
                 in open_write fs output_path (content @ marker @ signature))"

text \<open>
  \<^verbatim>\<open>sign_pdf_button()\<close>: the whole body is inside \<^verbatim>\<open>try\<close>, and every exception ends in
  the same error box. The result is the boxes shown and the file system afterwards.
\<close>

definition sign_pdf_button ::
  "('priv, 'pub) crypto \<Rightarrow> filesystem \<Rightarrow> app_state \<Rightarrow> bytes
     \<Rightarrow> message list \<times> filesystem" where
  "sign_pdf_button L fs st rand =
     (if pdf_path st = [] \<or> private_key_path st = [] \<or> pin st = []
      then ([ShowError ''Error'' [Lit ''One or more fields empty'']], fs)
      else
        case (case decrypt_private_key L fs st of
                Inl e \<Rightarrow> Inl e
              | Inr private_key_pem \<Rightarrow>
                  (case load_pem_private_key L private_key_pem of
                     Inl e \<Rightarrow> Inl e
                   | Inr private_key \<Rightarrow> sign_pdf L fs st private_key rand)) of
          Inl e \<Rightarrow> ([ShowError ''PIN error'' [Lit ''Pin is incorrect'']], fs)
        | Inr fs' \<Rightarrow> ([ShowInfo ''Success'' [Lit ''Signed PDF successfully'']], fs'))"

text \<open>
  \<^verbatim>\<open>extract_content_and_signature()\<close>: the \<^verbatim>\<open>if marker not in pdf_data\<close> branch shows
  an error box and falls through to the split; \<^verbatim>\<open>parts[1]\<close> raises IndexError when
  the split gave a single piece. No exception is caught here.
\<close>

definition extract_content_and_signature ::
  "filesystem \<Rightarrow> app_state \<Rightarrow> message list \<times> (py_error + bytes \<times> bytes)" where
  "extract_content_and_signature fs st =
     (case open_read fs (pdf_path st) of
        Inl e \<Rightarrow> ([], Inl e)
      | Inr pdf_data \<Rightarrow>
          let msgs = (if \<not> bytes_contains marker pdf_data
                      then [ShowError ''PDF not signed''
                              [Lit ''The PDF you have chosen is not a signed PDF'']]
                      else []);
              parts = bytes_split marker pdf_data
          in case parts of
               [] \<Rightarrow> (msgs, Inl IndexError)
             | content # rest \<Rightarrow>
                 (case rest of
                    [] \<Rightarrow> (msgs, Inl IndexError)
                  | signature # _ \<Rightarrow> (msgs, Inr (content, signature))))"

text \<open>
  \<^verbatim>\<open>verify_pdf(content, signature)\<close>: the inner \<^verbatim>\<open>try\<close> turns every exception of
  \<^verbatim>\<open>public_key.verify\<close> into \<^verbatim>\<open>False\<close>, the outer one every other exception.
\<close>

definition verify_pdf ::
  "('priv, 'pub) crypto \<Rightarrow> filesystem \<Rightarrow> app_state \<Rightarrow> bytes \<Rightarrow> bytes
     \<Rightarrow> message list \<times> bool" where
  "verify_pdf L fs st content signature =
     (if pdf_path st = [] \<or> public_key_path st = []
      then ([ShowError ''Missing fields''
               [Lit ''You did not select public key or pdf to verify'']], False)
      else
        case (case open_read fs (public_key_path st) of
                Inl e \<Rightarrow> Inl e
              | Inr public_key_pem \<Rightarrow> load_pem_public_key L public_key_pem) of
          Inl e \<Rightarrow>
            ([ShowError ''Unknown error'' [Lit ''Error while verifying: '', Str e]], False)
        | Inr public_key \<Rightarrow>
            let pdf_hash = hash L SHA256 content
            in case rsa_verify L public_key signature pdf_hash
                      (PSS (MGF1 SHA256) MAX_LENGTH) (Hash SHA256) of
                 Inr _ \<Rightarrow>
                   ([ShowInfo ''Verification success''
                       [Lit ''Signature has been verified with success'']], True)
               | Inl e \<Rightarrow>
                   ([ShowInfo ''Verification failure''
                       [Lit ''The PDF signature does not match the public key ('',
                        Str e, Lit '')'']], False))"

text \<open>
  \<^verbatim>\<open>verify_pdf_button()\<close>: no \<^verbatim>\<open>try\<close>; an exception of the extraction leaves the
  handler.
\<close>

definition verify_pdf_button ::
  "('priv, 'pub) crypto \<Rightarrow> filesystem \<Rightarrow> app_state \<Rightarrow> message list \<times> (py_error + unit)" where
  "verify_pdf_button L fs st =
     (case extract_content_and_signature fs st of
        (msgs, Inl e) \<Rightarrow> (msgs, Inl e)
      | (msgs, Inr (content, signature)) \<Rightarrow>
          (msgs @ fst (verify_pdf L fs st content signature), Inr ()))"

section \<open>PAdES-app/pades-app-main.py\<close>

text \<open>
  The second variant of the application differs in the functions below; its
  \<^verbatim>\<open>sign_pdf\<close> is the one above.

  \<^verbatim>\<open>get_encrypted_private_key()\<close>: \<^verbatim>\<open>None\<close> and an error box when the key file cannot
  be read.
\<close>

definition get_encrypted_private_key ::
  "filesystem \<Rightarrow> app_state \<Rightarrow> message list \<times> bytes option" where
  "get_encrypted_private_key fs st =
     (case open_read fs (private_key_path st) of
        Inl e \<Rightarrow>
          ([ShowError ''Private key not found''
              [Lit ''There is no private key at the specified location'']], None)
      | Inr encrypted_private_key_with_iv \<Rightarrow> ([], Some encrypted_private_key_with_iv))"

definition pades_app_decrypt_private_key ::
  "('priv, 'pub) crypto \<Rightarrow> filesystem \<Rightarrow> app_state
     \<Rightarrow> message list \<times> (py_error + bytes option)" where
  "pades_app_decrypt_private_key L fs st =
     (let pin_str = pin st in
      case get_encrypted_private_key fs st of
        (msgs, None) \<Rightarrow> (msgs, Inr None)
      | (msgs, Some encrypted_private_key_with_iv) \<Rightarrow>
          let iv = take 16 encrypted_private_key_with_iv;
              encrypted_private_key = drop 16 encrypted_private_key_with_iv
          in case str_encode pin_str of
               Inl e \<Rightarrow> (msgs, Inl e)
             | Inr pin_bytes \<Rightarrow>
                 let pin_aes_key = hash L SHA256 pin_bytes
                 in case aes_cbc_decrypt L pin_aes_key iv encrypted_private_key of
                      Inl e \<Rightarrow> (msgs, Inl e)
                    | Inr decrypted_data \<Rightarrow>
                        (msgs, map_sum id Some (pkcs7_unpad 128 decrypted_data)))"

text \<open>
  \<^verbatim>\<open>sign_pdf_button()\<close> of the variant: after the emptiness check, the loop over
  \<^verbatim>\<open>[pdf_path.get(), private_key_path.get(), pin.get()]\<close> requires \<^verbatim>\<open>os.path.exists\<close>
  of each of the three strings, the PIN included.
\<close>

definition pades_app_sign_pdf_button ::
  "('priv, 'pub) crypto \<Rightarrow> filesystem \<Rightarrow> app_state \<Rightarrow> bytes
     \<Rightarrow> message list \<times> filesystem" where
  "pades_app_sign_pdf_button L fs st rand =
     (if pdf_path st = [] \<or> private_key_path st = [] \<or> pin st = []
      then ([ShowError ''Error'' [Lit ''One or more fields empty'']], fs)
      else if \<not> list_all (path_exists fs) [pdf_path st, private_key_path st, pin st]
      then ([ShowError ''Error''
               [Lit ''One or more fields refer to a path that no longer exists'']], fs)
      else
        case pades_app_decrypt_private_key L fs st of
          (msgs, Inl e) \<Rightarrow> (msgs @ [ShowError ''PIN error'' [Lit ''Pin is incorrect'']], fs)
        | (msgs, Inr None) \<Rightarrow>
            (msgs @ [ShowError ''Failure'' [Lit ''Couldn't sign the pdf'']], fs)
        | (msgs, Inr (Some private_key_pem)) \<Rightarrow>
            (case (case load_pem_private_key L private_key_pem of
                     Inl e \<Rightarrow> Inl e
                   | Inr private_key \<Rightarrow> sign_pdf L fs st private_key rand) of
               Inl e \<Rightarrow> (msgs @ [ShowError ''PIN error'' [Lit ''Pin is incorrect'']], fs)
             | Inr fs' \<Rightarrow>
                 (msgs @ [ShowInfo ''Success'' [Lit ''Signed PDF successfully'']], fs')))"

section \<open>What the package guarantees of its primitives\<close>

text \<open>
  The properties of the parameters that the theorems below assume where they need them:
  AES decryption undoes AES encryption of a 16-byte block under a 32-byte key, and the
  ciphertext block has 16 bytes; a hash value has the algorithm's digest size; an RSA
  signature has as many bytes as the modulus.
\<close>

definition block_cipher_ok :: "('priv, 'pub) crypto \<Rightarrow> bool" where
  "block_cipher_ok L =
     (\<forall>key block. length key = 32 \<and> length block = 16 \<longrightarrow>
        length (aes_encrypt_block L key block) = 16 \<and>
        aes_decrypt_block L key (aes_encrypt_block L key block) = block)"

definition hash_ok :: "('priv, 'pub) crypto \<Rightarrow> bool" where
  "hash_ok L = (\<forall>a data. length (hash L a data) = digest_size a)"

definition signature_length_ok :: "('priv, 'pub) crypto \<Rightarrow> bool" where
  "signature_length_ok L =
     (\<forall>key m h n digest rand.
        length (rsa_pss_sign_digest L key m h n digest rand) = (private_key_size L key + 7) div 8)"

text \<open>
  A small instance of the parameters, to show that the hypotheses of the theorems can
  be met together. It is not AES, SHA-2 or RSA: the block cipher XORs the block with
  the first 16 bytes of the key, a hash value is the data cut or zero-filled to the
  digest size, a key is its own size in bits, and a signature is the digest followed by
  the salt, cut or zero-filled to the modulus length. Every byte string loads as the key
  of 4096 bits.
\<close>

definition fit :: "nat \<Rightarrow> bytes \<Rightarrow> bytes" where
  "fit n data = take n (data @ replicate n 0)"

definition toy_crypto :: "(nat, nat) crypto" where
  "toy_crypto =
     \<lparr>hash = (\<lambda>a data. fit (digest_size a) data),
      aes_encrypt_block = (\<lambda>key block. xor_bytes (take 16 key) block),
      aes_decrypt_block = (\<lambda>key block. xor_bytes (take 16 key) block),
      private_key_size = (\<lambda>key. key),
      public_key_size = (\<lambda>key. key),
      rsa_pss_sign_digest = (\<lambda>key m h n digest rand. fit ((key + 7) div 8) (digest @ rand)),
      rsa_pss_verify_digest =
        (\<lambda>key m h n signature digest.
           length signature = (key + 7) div 8 \<and> take (length digest) signature = digest),
      load_pem_private_key = (\<lambda>pem. Inr 4096),
      load_pem_public_key = (\<lambda>pem. Inr 4096)\<rparr>"

text \<open>
  The spec's \<^verbatim>\<open>derive(pin)\<close>, in the spec's words: SHA-256 over the UTF-8 bytes of the
  PIN. It is compared below with the key that the two programs compute.
\<close>

definition spec_derive :: "('priv, 'pub) crypto \<Rightarrow> py_str \<Rightarrow> py_error + bytes" where
  "spec_derive L pin_str = map_sum id (hash L SHA256) (str_encode pin_str)"

section \<open>Searching and splitting\<close>

lemma bytes_find_bound: "bytes_find sep s = Some i \<Longrightarrow> i + length sep \<le> length s"
proof (induction s arbitrary: i)
  case Nil
  then show ?case by (simp split: if_splits)
next
  case (Cons x xs)
  then show ?case
    by (auto split: if_splits dest: prefix_length_le)
qed

lemma bytes_find_occurs: "bytes_find sep s = Some i \<Longrightarrow> prefix sep (drop i s)"
proof (induction s arbitrary: i)
  case Nil
  then show ?case by (simp split: if_splits)
next
  case (Cons x xs)
  then show ?case
    by (auto split: if_splits)
qed

lemma bytes_find_first:
  "bytes_find sep s = Some i \<Longrightarrow> j < i \<Longrightarrow> \<not> prefix sep (drop j s)"
proof (induction s arbitrary: i j)
  case Nil
  then show ?case by (simp split: if_splits)
next
  case (Cons x xs)
  show ?case
  proof (cases j)
    case 0
    with Cons.prems show ?thesis by (auto split: if_splits)
  next
    case (Suc k)
    with Cons.prems Cons.IH show ?thesis by (auto split: if_splits)
  qed
qed

lemma bytes_find_None_iff: "bytes_find sep s = None \<longleftrightarrow> \<not> sublist sep s"
  by (induction s) (auto simp: sublist_Cons_right)

lemma bytes_contains_sublist: "bytes_contains sep s \<longleftrightarrow> sublist sep s"
  by (simp add: bytes_contains_def bytes_find_None_iff)

lemma bytes_split_nonempty: "bytes_split sep s \<noteq> []"
  by (subst bytes_split.simps) (simp split: option.splits)

lemma hd_bytes_split:
  "sep \<noteq> [] \<Longrightarrow>
   hd (bytes_split sep s) = (case bytes_find sep s of None \<Rightarrow> s | Some i \<Rightarrow> take i s)"
  by (subst bytes_split.simps) (simp split: option.splits)

lemma prefix_append_short: "prefix a (b @ c) \<Longrightarrow> length a \<le> length b \<Longrightarrow> prefix a b"
  by (auto simp: prefix_append)

text \<open>
  Where the separator is found in \<open>c @ sep @ s\<close>: at the end of \<open>c\<close>, unless an earlier
  occurrence starts inside \<open>c\<close> and runs into the separator.
\<close>

lemma bytes_find_build:
  assumes "sep \<noteq> []" and "\<not> bytes_contains sep (c @ butlast sep)"
  shows "bytes_find sep (c @ sep @ s) = Some (length c)"
  using assms(2)
proof (induction c)
  case Nil
  from assms(1) obtain x xs where "sep @ s = x # xs"
    by (cases sep) auto
  moreover have "prefix sep (sep @ s)"
    by simp
  ultimately show ?case
    by simp
next
  case (Cons x xs)
  from Cons.prems have np: "\<not> prefix sep (x # xs @ butlast sep)"
    and nc: "\<not> bytes_contains sep (xs @ butlast sep)"
    by (auto simp: bytes_contains_def split: if_splits)
  have "\<not> prefix sep (x # xs @ sep @ s)"
  proof
    assume "prefix sep (x # xs @ sep @ s)"
    moreover have "sep @ s = butlast sep @ [last sep] @ s"
      using assms(1) by simp
    ultimately have "prefix sep ((x # xs @ butlast sep) @ ([last sep] @ s))"
      by simp
    moreover have "length sep \<le> length (x # xs @ butlast sep)"
      by simp
    ultimately have "prefix sep (x # xs @ butlast sep)"
      by (rule prefix_append_short)
    with np show False ..
  qed
  with Cons.IH [OF nc] show ?case
    by simp
qed

section \<open>The container: extraction\<close>

lemma marker_nonempty: "marker \<noteq> []"
  by (simp add: marker_def)

lemma length_marker: "length marker = 21"
  by (simp add: marker_def)

lemma open_read_upd: "open_read (fs(p \<mapsto> File data)) p = Inr data"
  by (simp add: open_read_def)

text \<open>What the extraction returns on a file without the marker, and on one with it.\<close>

lemma extract_no_marker:
  assumes "open_read fs (pdf_path st) = Inr pdf_data"
    and "\<not> bytes_contains marker pdf_data"
  shows "extract_content_and_signature fs st =
           ([ShowError ''PDF not signed'' [Lit ''The PDF you have chosen is not a signed PDF'']],
            Inl IndexError)"
proof -
  from assms(2) have "bytes_find marker pdf_data = None"
    by (simp add: bytes_contains_def)
  then have "bytes_split marker pdf_data = [pdf_data]"
    by (simp add: bytes_split.simps)
  with assms show ?thesis
    by (simp add: extract_content_and_signature_def)
qed

lemma extract_with_marker:
  assumes "open_read fs (pdf_path st) = Inr pdf_data"
    and "bytes_find marker pdf_data = Some i"
  shows "extract_content_and_signature fs st =
           ([], Inr (take i pdf_data,
                     (let rest = drop (i + length marker) pdf_data
                      in case bytes_find marker rest of
                           None \<Rightarrow> rest
                         | Some j \<Rightarrow> take j rest)))"
proof -
  let ?rest = "drop (i + length marker) pdf_data"
  have split1: "bytes_split marker pdf_data = take i pdf_data # bytes_split marker ?rest"
    using assms(2) marker_nonempty by (subst bytes_split.simps) simp
  obtain p ps where ps: "bytes_split marker ?rest = p # ps"
    using bytes_split_nonempty [of marker ?rest] by (cases "bytes_split marker ?rest") auto
  have "p = hd (bytes_split marker ?rest)"
    by (simp add: ps)
  then have p: "p = (case bytes_find marker ?rest of None \<Rightarrow> ?rest | Some j \<Rightarrow> take j ?rest)"
    by (simp add: hd_bytes_split marker_nonempty)
  from assms(2) have "bytes_contains marker pdf_data"
    by (simp add: bytes_contains_def)
  then show ?thesis
    by (simp add: extract_content_and_signature_def assms(1) split1 ps p Let_def)
qed

text \<open>
  The marker starts and ends with a newline and has no other overlap with itself: a
  non-empty tail of the marker that is also a head of its first 20 bytes is the single
  newline.
\<close>

lemma marker_overlap:
  "marker = xs1 @ xs2 \<Longrightarrow> xs2 \<noteq> [] \<Longrightarrow> prefix xs2 (butlast marker) \<Longrightarrow> xs1 = butlast marker"
  unfolding marker_def by (auto simp: append_eq_Cons_conv Cons_eq_append_conv)

lemma marker_not_across:
  assumes "\<not> bytes_contains marker content" and "\<not> suffix (butlast marker) content"
  shows "\<not> bytes_contains marker (content @ butlast marker)"
proof
  assume "bytes_contains marker (content @ butlast marker)"
  then have "sublist marker (content @ butlast marker)"
    by (simp add: bytes_contains_sublist)
  then consider "sublist marker content" | "sublist marker (butlast marker)"
    | xs1 xs2 where "marker = xs1 @ xs2" "suffix xs1 content" "prefix xs2 (butlast marker)"
    by (auto simp: sublist_append)
  then show False
  proof cases
    case 1
    with assms(1) show False
      by (simp add: bytes_contains_sublist)
  next
    case 2
    then have "length marker \<le> length (butlast marker)"
      by (rule sublist_length_le)
    then show False
      by (simp add: length_marker)
  next
    case 3
    show False
    proof (cases "xs2 = []")
      case True
      with 3 have "suffix marker content"
        by simp
      then have "sublist marker content"
        by (rule suffix_imp_sublist)
      with assms(1) show False
        by (simp add: bytes_contains_sublist)
    next
      case False
      with 3 have "xs1 = butlast marker"
        by (intro marker_overlap)
      with 3 assms(2) show False
        by simp
    qed
  qed
qed

text \<open>
  The extraction on a file that holds a content, the marker and a signature, when the
  first occurrence of the marker is the written one and the signature holds no other.
\<close>

lemma extract_built_container:
  assumes "\<not> bytes_contains marker (content @ butlast marker)"
    and "\<not> bytes_contains marker signature"
    and "open_read fs (pdf_path st) = Inr (content @ marker @ signature)"
  shows "extract_content_and_signature fs st = ([], Inr (content, signature))"
proof -
  have found: "bytes_find marker (content @ marker @ signature) = Some (length content)"
    using marker_nonempty assms(1) by (rule bytes_find_build)
  from assms(2) have "bytes_find marker signature = None"
    by (simp add: bytes_contains_def)
  with extract_with_marker [OF assms(3) found] show ?thesis
    by simp
qed

text \<open>
  Claim C2, as amended. For every content that neither contains the marker nor ends
  with the marker's first 20 bytes \<^verbatim>\<open>\n%%PAdES_SIGNATURE%%\<close>, and every signature
  that does not contain the marker: when the chosen file holds what \<^verbatim>\<open>sign_pdf\<close>
  writes (the content, the marker, the signature), the extraction returns exactly the
  pair (content, signature) and shows no message.
\<close>

theorem container_round_trip:
  assumes "\<not> bytes_contains marker content"
    and "\<not> suffix (butlast marker) content"
    and "\<not> bytes_contains marker signature"
  shows "extract_content_and_signature
           (fs(pdf_path st \<mapsto> File (content @ marker @ signature))) st =
           ([], Inr (content, signature))"
proof -
  have "\<not> bytes_contains marker (content @ butlast marker)"
    using assms(1,2) by (rule marker_not_across)
  then show ?thesis
    using assms(3) open_read_upd by (rule extract_built_container)
qed

text \<open>
  The hypotheses of the round trip hold for the content \<^verbatim>\<open>b"doc"\<close> and the signature
  \<^verbatim>\<open>b"SIG"\<close>, in the file \<^verbatim>\<open>"a"\<close>.
\<close>

theorem container_round_trip_witness:
  "extract_content_and_signature
     (Map.empty([0x61] \<mapsto> File ([0x64, 0x6F, 0x63] @ marker @ [0x53, 0x49, 0x47])))
     \<lparr>pdf_path = [0x61], private_key_path = [], public_key_path = [], pin = []\<rparr> =
     ([], Inr ([0x64, 0x6F, 0x63], [0x53, 0x49, 0x47]))"
proof -
  have a: "\<not> bytes_contains marker [0x64, 0x6F, 0x63]"
    by (simp add: bytes_contains_def marker_def)
  have b: "\<not> suffix (butlast marker) [0x64, 0x6F, 0x63 :: byte]"
    by (auto simp: marker_def dest: suffix_length_le)
  have c: "\<not> bytes_contains marker [0x53, 0x49, 0x47]"
    by (simp add: bytes_contains_def marker_def)
  show ?thesis
    using container_round_trip [OF a b c, of Map.empty
        "\<lparr>pdf_path = [0x61], private_key_path = [], public_key_path = [], pin = []\<rparr>"]
    by simp
qed

text \<open>
  Claim C2 as stated fails: the 20-byte content \<^verbatim>\<open>b"\n%%PAdES_SIGNATURE%%"\<close> does not
  contain the marker, yet in content + marker + \<^verbatim>\<open>b"S"\<close> the first occurrence of the
  marker starts at index 0 (its last byte is the first byte of the written marker), so
  the extracted content is empty and the extracted signature is the rest of the written
  marker followed by \<^verbatim>\<open>b"S"\<close>.
\<close>

theorem container_round_trip_counterexample:
  "\<not> bytes_contains marker
       [0x0A, 0x25, 0x25, 0x50, 0x41, 0x64, 0x45, 0x53, 0x5F, 0x53, 0x49,
        0x47, 0x4E, 0x41, 0x54, 0x55, 0x52, 0x45, 0x25, 0x25]
   \<and> extract_content_and_signature
       (Map.empty([0x61] \<mapsto> File
          ([0x0A, 0x25, 0x25, 0x50, 0x41, 0x64, 0x45, 0x53, 0x5F, 0x53, 0x49,
            0x47, 0x4E, 0x41, 0x54, 0x55, 0x52, 0x45, 0x25, 0x25] @ marker @ [0x53])))
       \<lparr>pdf_path = [0x61], private_key_path = [], public_key_path = [], pin = []\<rparr>
     = ([], Inr ([], [0x25, 0x25, 0x50, 0x41, 0x64, 0x45, 0x53, 0x5F, 0x53, 0x49,
                      0x47, 0x4E, 0x41, 0x54, 0x55, 0x52, 0x45, 0x25, 0x25, 0x0A, 0x53]))
   \<and> extract_content_and_signature
       (Map.empty([0x61] \<mapsto> File
          ([0x0A, 0x25, 0x25, 0x50, 0x41, 0x64, 0x45, 0x53, 0x5F, 0x53, 0x49,
            0x47, 0x4E, 0x41, 0x54, 0x55, 0x52, 0x45, 0x25, 0x25] @ marker @ [0x53])))
       \<lparr>pdf_path = [0x61], private_key_path = [], public_key_path = [], pin = []\<rparr>
     \<noteq> ([], Inr ([0x0A, 0x25, 0x25, 0x50, 0x41, 0x64, 0x45, 0x53, 0x5F, 0x53, 0x49,
                    0x47, 0x4E, 0x41, 0x54, 0x55, 0x52, 0x45, 0x25, 0x25], [0x53]))"
  by (simp add: extract_content_and_signature_def open_read_def
      bytes_contains_def marker_def bytes_split.simps)

text \<open>
  Claim C4 at a file holding \<^verbatim>\<open>b"A" + marker + b"B" + marker + b"C"\<close>: the content
  returned is \<^verbatim>\<open>b"A"\<close>, the bytes before the first marker, but the signature returned
  is \<^verbatim>\<open>b"B"\<close>, the bytes between the first and the second marker, and not all the
  bytes after the first marker, which are \<^verbatim>\<open>b"B" + marker + b"C"\<close>.
\<close>

theorem extract_two_markers:
  "extract_content_and_signature
     (fs(pdf_path st \<mapsto> File ([0x41] @ marker @ [0x42] @ marker @ [0x43]))) st =
     ([], Inr ([0x41], [0x42]))
   \<and> [0x42] \<noteq> [0x42] @ marker @ [0x43]"
  by (simp add: extract_content_and_signature_def open_read_def
      bytes_contains_def marker_def bytes_split.simps)

text \<open>
  Claim C5 at a file holding \<^verbatim>\<open>b"hello"\<close>, which has no marker: the error box
  "PDF not signed" is shown, and then the extraction raises IndexError at
  \<^verbatim>\<open>parts[1]\<close>, which leaves \<^verbatim>\<open>verify_pdf_button\<close> uncaught, instead of stopping with
  the not-signed failure.
\<close>

theorem extract_unsigned_raises:
  "extract_content_and_signature
     (fs(pdf_path st \<mapsto> File [0x68, 0x65, 0x6C, 0x6C, 0x6F])) st =
     ([ShowError ''PDF not signed'' [Lit ''The PDF you have chosen is not a signed PDF'']],
      Inl IndexError)
   \<and> verify_pdf_button L (fs(pdf_path st \<mapsto> File [0x68, 0x65, 0x6C, 0x6C, 0x6F])) st =
     ([ShowError ''PDF not signed'' [Lit ''The PDF you have chosen is not a signed PDF'']],
      Inl IndexError)"
  by (simp add: verify_pdf_button_def extract_content_and_signature_def open_read_def
      bytes_contains_def marker_def bytes_split.simps)

section \<open>Padding and chaining\<close>

lemma pad_len_range: "0 < bs \<Longrightarrow> 0 < bs - (n::nat) mod bs \<and> bs - n mod bs \<le> bs"
  by (simp add: less_imp_diff_less)

lemma length_pkcs7_pad: "length (pkcs7_pad 128 data) mod 16 = 0"
proof -
  have "(length data + (16 - length data mod 16)) mod 16 = 0"
    by presburger
  then show ?thesis
    by (simp add: pkcs7_pad_def Let_def)
qed

lemma pkcs7_pad_nonempty: "pkcs7_pad 128 data \<noteq> []"
  by (simp add: pkcs7_pad_def Let_def)

lemma pkcs7_unpad_pad: "pkcs7_unpad 128 (pkcs7_pad 128 data) = Inr data"
proof -
  define n where "n = 16 - length data mod 16"
  have n: "0 < n" "n \<le> 16"
    by (simp_all add: n_def)
  have padded: "pkcs7_pad 128 data = data @ replicate n (of_nat n)"
    by (simp add: pkcs7_pad_def Let_def n_def)
  have len: "length (data @ replicate n (of_nat n :: byte)) mod 16 = 0"
    using length_pkcs7_pad [of data] by (simp add: padded)
  have last: "last (data @ replicate n (of_nat n :: byte)) = of_nat n"
    using n by simp
  have "unat (of_nat n :: byte) = n"
    using n by (simp add: unat_of_nat)
  with n len last show ?thesis
    by (simp add: pkcs7_unpad_def padded Let_def)
qed

lemma xor_bytes_cancel: "length a = length b \<Longrightarrow> xor_bytes a (xor_bytes a b) = b"
  by (induction a b rule: list_induct2) (simp_all add: xor_bytes_def)

lemma length_xor_bytes: "length (xor_bytes a b) = min (length a) (length b)"
  by (simp add: xor_bytes_def)


text \<open>CBC decryption undoes CBC encryption, for a block cipher whose decryption undoes it.\<close>

lemma cbc_round_trip:
  "\<forall>b. length b = 16 \<longrightarrow> length (enc b) = 16 \<and> dec (enc b) = b \<Longrightarrow>
   length prev = 16 \<Longrightarrow> length data mod 16 = 0 \<Longrightarrow>
   length (cbc_encrypt enc prev data) = length data \<and>
   cbc_decrypt dec prev (cbc_encrypt enc prev data) = data"
proof (induction enc prev data rule: cbc_encrypt.induct)
  case (1 enc prev data)
  from "1.prems"(1) have enc_len: "\<And>b. length b = 16 \<Longrightarrow> length (enc b) = 16"
    and dec_enc: "\<And>b. length b = 16 \<Longrightarrow> dec (enc b) = b"
    by simp_all
  show ?case
  proof (cases "data = []")
    case True
    then show ?thesis
      by (simp add: cbc_encrypt.simps cbc_decrypt.simps)
  next
    case False
    define b where "b = xor_bytes prev (take 16 data)"
    define c where "c = enc b"
    from False "1.prems"(3) have long: "16 \<le> length data"
      by (cases "length data < 16") auto
    then have lb: "length b = 16"
      using "1.prems"(2) by (simp add: b_def length_xor_bytes)
    then have lc: "length c = 16"
      by (simp add: c_def enc_len)
    from "1.prems"(3) long have "(length data - 16) mod 16 = 0"
      by presburger
    then have rest: "length (drop 16 data) mod 16 = 0"
      by simp
    have IH: "length (cbc_encrypt enc c (drop 16 data)) = length (drop 16 data) \<and>
              cbc_decrypt dec c (cbc_encrypt enc c (drop 16 data)) = drop 16 data"
      by (rule "1.IH" [OF False c_def [unfolded b_def] "1.prems"(1) lc rest])
    have enc_eq: "cbc_encrypt enc prev data = c @ cbc_encrypt enc c (drop 16 data)"
      using False by (subst cbc_encrypt.simps) (simp add: Let_def c_def b_def)
    have "dec c = b"
      by (simp add: c_def dec_enc lb)
    then have "xor_bytes prev (dec c) = take 16 data"
      using "1.prems"(2) long by (simp add: b_def xor_bytes_cancel)
    then have "cbc_decrypt dec prev (c @ cbc_encrypt enc c (drop 16 data)) =
                 take 16 data @ cbc_decrypt dec c (cbc_encrypt enc c (drop 16 data))"
      using lc by (subst cbc_decrypt.simps) (auto simp: Let_def)
    with IH enc_eq lc long show ?thesis
      by simp
  qed
qed


section \<open>The key vault\<close>

lemma str_encode_ascii: "list_all (\<lambda>c. c < 0x80) p \<Longrightarrow> str_encode p = Inr (map of_nat p)"
  by (induction p) (simp_all add: utf8_char_def)

lemma six_digit_pin_encodes: "six_digit_pin p \<Longrightarrow> str_encode p = Inr (map of_nat p)"
proof -
  assume "six_digit_pin p"
  then have "list_all (\<lambda>c. 0x30 \<le> c \<and> c \<le> 0x39) p"
    by (simp add: six_digit_pin_def)
  then have "list_all (\<lambda>c. c < 0x80) p"
    by (rule list.pred_mono_strong) simp
  then show ?thesis
    by (rule str_encode_ascii)
qed

lemma utf8_examples:
  "str_encode [0x31, 0x32, 0x33, 0x34, 0x35, 0x36] = Inr [0x31, 0x32, 0x33, 0x34, 0x35, 0x36]"
  "str_encode [0xE9] = Inr [0xC3, 0xA9]"
  "str_encode [0x20AC] = Inr [0xE2, 0x82, 0xAC]"
  "str_encode [0x1F600] = Inr [0xF0, 0x9F, 0x98, 0x80]"
  "str_encode [0xD800] = Inl UnicodeEncodeError"
  by (simp_all add: utf8_char_def)

lemma aes_cbc_check_ok:
  "length key = 32 \<Longrightarrow> length iv = 16 \<Longrightarrow> length data mod 16 = 0 \<Longrightarrow>
   aes_cbc_check key iv data = None"
  by (simp add: aes_cbc_check_def)

text \<open>
  The round trip for every PIN that can be encoded: the blob is the IV followed by the
  CBC ciphertext of the padded key, and decrypting it under the same PIN returns the key.
\<close>

lemma vault_round_trip:
  assumes cipher: "block_cipher_ok L" and hash: "hash_ok L"
    and iv: "length iv = 16" and enc: "str_encode p = Inr pin_bytes"
    and key_def: "key = hash L SHA256 pin_bytes"
    and blob_def: "blob = iv @ cbc_encrypt (aes_encrypt_block L key) iv (pkcs7_pad 128 pem)"
  shows "encrypt_private_key L iv pem p = Inr blob"
    and "decrypt_private_key L (fs(path \<mapsto> File blob))
           (st\<lparr>private_key_path := path, pin := p\<rparr>) = Inr pem"
proof -
  let ?padded = "pkcs7_pad 128 pem"
  let ?ct = "cbc_encrypt (aes_encrypt_block L key) iv ?padded"
  have key: "length key = 32"
    using hash by (simp add: key_def hash_ok_def)
  have blocks: "\<forall>b. length b = 16 \<longrightarrow>
      length (aes_encrypt_block L key b) = 16 \<and>
      aes_decrypt_block L key (aes_encrypt_block L key b) = b"
    using cipher key by (simp add: block_cipher_ok_def)
  have rt: "length ?ct = length ?padded \<and>
      cbc_decrypt (aes_decrypt_block L key) iv ?ct = ?padded"
    using blocks iv length_pkcs7_pad by (rule cbc_round_trip)
  have check_enc: "aes_cbc_check key iv ?padded = None"
    using key iv length_pkcs7_pad by (rule aes_cbc_check_ok)
  show "encrypt_private_key L iv pem p = Inr blob"
    by (simp add: encrypt_private_key_def enc aes_cbc_encrypt_def check_enc
        key_def [symmetric] blob_def)
  have "length ?ct mod 16 = 0"
    using rt length_pkcs7_pad by simp
  with key iv have check_dec: "aes_cbc_check key iv ?ct = None"
    by (rule aes_cbc_check_ok)
  have "aes_cbc_decrypt L key iv ?ct = Inr ?padded"
    using rt by (simp add: aes_cbc_decrypt_def check_dec)
  then show "decrypt_private_key L (fs(path \<mapsto> File blob))
           (st\<lparr>private_key_path := path, pin := p\<rparr>) = Inr pem"
    using iv
    by (simp add: decrypt_private_key_def open_read_def blob_def enc
        key_def [symmetric] pkcs7_unpad_pad)
qed

text \<open>
  Claim C1. For every PIN of six digits \<open>p\<close>, every serialized private key \<open>pem\<close> and
  every 16-byte IV drawn, \<^verbatim>\<open>encrypt_private_key\<close> returns a blob, and
  \<^verbatim>\<open>decrypt_private_key\<close>, reading that blob from the key file with the same PIN,
  returns exactly \<open>pem\<close>.
\<close>

theorem key_protection_round_trip:
  assumes "block_cipher_ok L" and "hash_ok L" and "length iv = 16" and "six_digit_pin p"
  shows "\<exists>blob. encrypt_private_key L iv pem p = Inr blob \<and>
           decrypt_private_key L (fs(path \<mapsto> File blob))
             (st\<lparr>private_key_path := path, pin := p\<rparr>) = Inr pem"
proof -
  from assms(4) have "str_encode p = Inr (map of_nat p)"
    by (rule six_digit_pin_encodes)
  from vault_round_trip [OF assms(1-3) this refl refl] show ?thesis
    by blast
qed

lemma length_fit: "length (fit n data) = n"
  by (simp add: fit_def)

lemma toy_block_cipher_ok: "block_cipher_ok toy_crypto"
  by (simp add: block_cipher_ok_def toy_crypto_def xor_bytes_cancel length_xor_bytes)

lemma toy_hash_ok: "hash_ok toy_crypto"
  by (simp add: hash_ok_def toy_crypto_def length_fit)

text \<open>The hypotheses of C1 hold for the PIN \<^verbatim>\<open>"123456"\<close> and an IV of 16 zero bytes.\<close>

theorem key_protection_round_trip_witness:
  "block_cipher_ok toy_crypto \<and> hash_ok toy_crypto \<and>
   six_digit_pin [0x31, 0x32, 0x33, 0x34, 0x35, 0x36] \<and>
   (\<exists>blob. encrypt_private_key toy_crypto (replicate 16 0) [0x6B, 0x65, 0x79]
              [0x31, 0x32, 0x33, 0x34, 0x35, 0x36] = Inr blob \<and>
            decrypt_private_key toy_crypto (Map.empty([0x6B] \<mapsto> File blob))
              \<lparr>pdf_path = [], private_key_path = [0x6B], public_key_path = [],
               pin = [0x31, 0x32, 0x33, 0x34, 0x35, 0x36]\<rparr> = Inr [0x6B, 0x65, 0x79])"
proof -
  have pin: "six_digit_pin [0x31, 0x32, 0x33, 0x34, 0x35, 0x36]"
    by (simp add: six_digit_pin_def)
  have iv: "length (replicate 16 (0 :: byte)) = 16"
    by simp
  show ?thesis
    using key_protection_round_trip [OF toy_block_cipher_ok toy_hash_ok iv pin,
        of "[0x6B, 0x65, 0x79]" Map.empty "[0x6B]"
        "\<lparr>pdf_path = [], private_key_path = [], public_key_path = [], pin = []\<rparr>"]
      toy_block_cipher_ok toy_hash_ok pin
    by simp
qed

section \<open>Failures of the vault at the sign button\<close>

text \<open>
  With the three fields filled in, the sign button ends in one of two ways: the PIN
  error box with the file system untouched, when any step raised, or the success box.
\<close>

lemma sign_pdf_button_outcomes:
  assumes "pdf_path st \<noteq> []" and "private_key_path st \<noteq> []" and "pin st \<noteq> []"
  shows "sign_pdf_button L fs st rand =
           (case decrypt_private_key L fs st of
              Inl e \<Rightarrow> ([ShowError ''PIN error'' [Lit ''Pin is incorrect'']], fs)
            | Inr private_key_pem \<Rightarrow>
                (case load_pem_private_key L private_key_pem of
                   Inl e \<Rightarrow> ([ShowError ''PIN error'' [Lit ''Pin is incorrect'']], fs)
                 | Inr private_key \<Rightarrow>
                     (case sign_pdf L fs st private_key rand of
                        Inl e \<Rightarrow> ([ShowError ''PIN error'' [Lit ''Pin is incorrect'']], fs)
                      | Inr fs' \<Rightarrow>
                          ([ShowInfo ''Success'' [Lit ''Signed PDF successfully'']], fs'))))"
  using assms by (simp add: sign_pdf_button_def split: sum.splits)

text \<open>The exceptions of \<^verbatim>\<open>decrypt_private_key\<close>, by cause.\<close>

lemma decrypt_short_blob:
  assumes "open_read fs (private_key_path st) = Inr blob" and "length blob < 16"
    and "str_encode (pin st) = Inr pin_bytes" and "hash_ok L"
  shows "decrypt_private_key L fs st = Inl (ValueError ''Invalid IV size for CBC.'')"
  using assms by (simp add: decrypt_private_key_def aes_cbc_decrypt_def aes_cbc_check_def
      hash_ok_def)

lemma decrypt_ragged_blob:
  assumes "open_read fs (private_key_path st) = Inr blob" and "16 \<le> length blob"
    and "length blob mod 16 \<noteq> 0"
    and "str_encode (pin st) = Inr pin_bytes" and "hash_ok L"
  shows "decrypt_private_key L fs st = Inl (ValueError
           ''The length of the provided data is not a multiple of the block length.'')"
proof -
  from assms(2,3) have "(length blob - 16) mod 16 \<noteq> 0"
    by presburger
  with assms show ?thesis
    by (simp add: decrypt_private_key_def aes_cbc_decrypt_def aes_cbc_check_def hash_ok_def)
qed

lemma decrypt_bad_padding:
  assumes "open_read fs (private_key_path st) = Inr blob"
    and "str_encode (pin st) = Inr pin_bytes"
    and "aes_cbc_decrypt L (hash L SHA256 pin_bytes) (take 16 blob) (drop 16 blob) = Inr d"
    and "pkcs7_unpad 128 d = Inl e"
  shows "decrypt_private_key L fs st = Inl e"
  using assms by (simp add: decrypt_private_key_def)

text \<open>
  Claim C3. When the sign button calls \<^verbatim>\<open>decrypt_private_key\<close> (the three fields
  are filled in) and it fails, whatever the exception is and whatever caused it, the
  button shows the one box "PIN error / Pin is incorrect" and leaves the file system as
  it was: the outcome does not depend on the exception.
\<close>

theorem unified_vault_failure:
  assumes "pdf_path st \<noteq> []" and "private_key_path st \<noteq> []" and "pin st \<noteq> []"
    and "decrypt_private_key L fs st = Inl e"
  shows "sign_pdf_button L fs st rand =
           ([ShowError ''PIN error'' [Lit ''Pin is incorrect'']], fs)"
  using assms by (simp add: sign_pdf_button_def)

text \<open>
  Two failures with different causes and different exceptions, the same outcome: a key
  file cut to 10 bytes, and a whole blob (IV and one block) opened with a PIN under
  which the padding is invalid.
\<close>

theorem unified_vault_failure_witness:
  "decrypt_private_key toy_crypto
     (Map.empty([0x6B] \<mapsto> File [1, 2, 3, 4, 5, 6, 7, 8, 9, 10]))
     \<lparr>pdf_path = [0x61], private_key_path = [0x6B], public_key_path = [],
      pin = [0x31, 0x32, 0x33, 0x34, 0x35, 0x36]\<rparr>
     = Inl (ValueError ''Invalid IV size for CBC.'')
   \<and> sign_pdf_button toy_crypto
     (Map.empty([0x6B] \<mapsto> File [1, 2, 3, 4, 5, 6, 7, 8, 9, 10]))
     \<lparr>pdf_path = [0x61], private_key_path = [0x6B], public_key_path = [],
      pin = [0x31, 0x32, 0x33, 0x34, 0x35, 0x36]\<rparr> []
     = ([ShowError ''PIN error'' [Lit ''Pin is incorrect'']],
        Map.empty([0x6B] \<mapsto> File [1, 2, 3, 4, 5, 6, 7, 8, 9, 10]))
   \<and> decrypt_private_key toy_crypto
     (Map.empty([0x6B] \<mapsto> File (replicate 32 0)))
     \<lparr>pdf_path = [0x61], private_key_path = [0x6B], public_key_path = [],
      pin = [0x31, 0x32, 0x33, 0x34, 0x35, 0x36]\<rparr>
     = Inl (ValueError ''Invalid padding bytes.'')
   \<and> sign_pdf_button toy_crypto
     (Map.empty([0x6B] \<mapsto> File (replicate 32 0)))
     \<lparr>pdf_path = [0x61], private_key_path = [0x6B], public_key_path = [],
      pin = [0x31, 0x32, 0x33, 0x34, 0x35, 0x36]\<rparr> []
     = ([ShowError ''PIN error'' [Lit ''Pin is incorrect'']],
        Map.empty([0x6B] \<mapsto> File (replicate 32 0)))"
proof -
  let ?st = "\<lparr>pdf_path = [0x61], private_key_path = [0x6B], public_key_path = [],
      pin = [0x31, 0x32, 0x33, 0x34, 0x35, 0x36]\<rparr>"
  let ?fs1 = "Map.empty([0x6B :: nat] \<mapsto> File [1, 2, 3, 4, 5, 6, 7, 8, 9, 10])"
  let ?fs2 = "Map.empty([0x6B :: nat] \<mapsto> File (replicate 32 0))"
  have fields: "pdf_path ?st \<noteq> []" "private_key_path ?st \<noteq> []" "pin ?st \<noteq> []"
    by simp_all
  have d1: "decrypt_private_key toy_crypto ?fs1 ?st = Inl (ValueError ''Invalid IV size for CBC.'')"
    by (simp add: decrypt_private_key_def open_read_def utf8_char_def aes_cbc_decrypt_def
        aes_cbc_check_def toy_crypto_def length_fit)
  have d2: "decrypt_private_key toy_crypto ?fs2 ?st = Inl (ValueError ''Invalid padding bytes.'')"
    by code_simp
  show ?thesis
    using unified_vault_failure [OF fields d1, of "[]"]
      unified_vault_failure [OF fields d2, of "[]"] d1 d2
    by simp
qed

section \<open>The key derived from the PIN\<close>

text \<open>
  Claim C7. The key both programs use is the spec's derived key, SHA-256 of the UTF-8
  bytes of the PIN and nothing else: it has 32 bytes, \<^verbatim>\<open>encrypt_private_key\<close> hands
  exactly this value to AES-CBC as the key when protecting, and
  \<^verbatim>\<open>decrypt_private_key\<close> hands exactly this value to AES-CBC when unprotecting.
\<close>

theorem pin_key_derivation:
  assumes "hash_ok L"
  shows "(\<forall>key. spec_derive L p = Inr key \<longrightarrow> length key = 32)
    \<and> encrypt_private_key L iv pem p =
        (case spec_derive L p of
           Inl e \<Rightarrow> Inl e
         | Inr key \<Rightarrow>
             (case aes_cbc_encrypt L key iv (pkcs7_pad 128 pem) of
                Inl e \<Rightarrow> Inl e
              | Inr c \<Rightarrow> Inr (iv @ c)))
    \<and> decrypt_private_key L fs (st\<lparr>pin := p\<rparr>) =
        (case open_read fs (private_key_path st) of
           Inl e \<Rightarrow> Inl e
         | Inr blob \<Rightarrow>
             (case spec_derive L p of
                Inl e \<Rightarrow> Inl e
              | Inr key \<Rightarrow>
                  (case aes_cbc_decrypt L key (take 16 blob) (drop 16 blob) of
                     Inl e \<Rightarrow> Inl e
                   | Inr d \<Rightarrow> pkcs7_unpad 128 d)))"
proof (intro conjI allI impI)
  fix key
  assume "spec_derive L p = Inr key"
  then obtain pin_bytes where "key = hash L SHA256 pin_bytes"
    by (cases "str_encode p") (auto simp: spec_derive_def)
  with assms show "length key = 32"
    by (simp add: hash_ok_def)
next
  show "encrypt_private_key L iv pem p =
        (case spec_derive L p of
           Inl e \<Rightarrow> Inl e
         | Inr key \<Rightarrow>
             (case aes_cbc_encrypt L key iv (pkcs7_pad 128 pem) of
                Inl e \<Rightarrow> Inl e
              | Inr c \<Rightarrow> Inr (iv @ c)))"
    by (cases "str_encode p") (simp_all add: encrypt_private_key_def spec_derive_def)
next
  show "decrypt_private_key L fs (st\<lparr>pin := p\<rparr>) =
        (case open_read fs (private_key_path st) of
           Inl e \<Rightarrow> Inl e
         | Inr blob \<Rightarrow>
             (case spec_derive L p of
                Inl e \<Rightarrow> Inl e
              | Inr key \<Rightarrow>
                  (case aes_cbc_decrypt L key (take 16 blob) (drop 16 blob) of
                     Inl e \<Rightarrow> Inl e
                   | Inr d \<Rightarrow> pkcs7_unpad 128 d)))"
    by (cases "str_encode p")
       (simp_all add: decrypt_private_key_def spec_derive_def split: sum.splits)
qed

text \<open>For the PIN \<^verbatim>\<open>"123456"\<close> the derived key exists and has 32 bytes.\<close>

theorem pin_key_derivation_witness:
  "hash_ok toy_crypto \<and>
   (\<exists>key. spec_derive toy_crypto [0x31, 0x32, 0x33, 0x34, 0x35, 0x36] = Inr key \<and>
          length key = 32)"
proof -
  have "\<exists>key. spec_derive toy_crypto [0x31, 0x32, 0x33, 0x34, 0x35, 0x36] = Inr key"
    by (simp add: spec_derive_def utf8_char_def)
  with pin_key_derivation [OF toy_hash_ok, of "[0x31, 0x32, 0x33, 0x34, 0x35, 0x36]"]
    toy_hash_ok
  show ?thesis
    by blast
qed

section \<open>Verification\<close>

text \<open>
  Claim C8. \<^verbatim>\<open>verify_pdf\<close> returns a boolean on every input, and the boolean is
  \<^verbatim>\<open>True\<close> exactly when both paths are filled in, the public key file is read and
  parsed, and \<^verbatim>\<open>public_key.verify\<close> accepts the signature for the SHA-256 hash of the
  content. In every other case, whatever exception was raised on the way (an invalid or
  wrong-length signature, a wrong key, an unreadable or malformed key file), the
  value is \<^verbatim>\<open>False\<close>.
\<close>

theorem verify_pdf_result:
  "snd (verify_pdf L fs st content signature) =
     (pdf_path st \<noteq> [] \<and> public_key_path st \<noteq> [] \<and>
      (\<exists>public_key_pem public_key.
         open_read fs (public_key_path st) = Inr public_key_pem \<and>
         load_pem_public_key L public_key_pem = Inr public_key \<and>
         rsa_verify L public_key signature (hash L SHA256 content)
           (PSS (MGF1 SHA256) MAX_LENGTH) (Hash SHA256) = Inr ()))"
proof (cases "pdf_path st = [] \<or> public_key_path st = []")
  case True
  then show ?thesis
    by (auto simp: verify_pdf_def)
next
  case fields: False
  show ?thesis
  proof (cases "open_read fs (public_key_path st)")
    case (Inl e)
    with fields show ?thesis
      by (simp add: verify_pdf_def)
  next
    case pem: (Inr public_key_pem)
    show ?thesis
    proof (cases "load_pem_public_key L public_key_pem")
      case (Inl e)
      with fields pem show ?thesis
        by (simp add: verify_pdf_def)
    next
      case key: (Inr public_key)
      show ?thesis
      proof (cases "rsa_verify L public_key signature (hash L SHA256 content)
                      (PSS (MGF1 SHA256) MAX_LENGTH) (Hash SHA256)")
        case (Inl e)
        with fields pem key show ?thesis
          by (simp add: verify_pdf_def)
      next
        case (Inr u)
        with fields pem key show ?thesis
          by (simp add: verify_pdf_def)
      qed
    qed
  qed
qed

text \<open>
  With the instance of the parameters: a signature of 511 bytes is refused whatever it
  holds, and so is every signature when the key file is missing.
\<close>

lemma verify_pdf_examples:
  "\<not> snd (verify_pdf toy_crypto (Map.empty([0x70] \<mapsto> File []))
     \<lparr>pdf_path = [0x61], private_key_path = [], public_key_path = [0x70], pin = []\<rparr>
     content (fit 511 signature))"
  "\<not> snd (verify_pdf toy_crypto Map.empty
     \<lparr>pdf_path = [0x61], private_key_path = [], public_key_path = [0x70], pin = []\<rparr>
     content signature)"
  by (simp_all add: verify_pdf_def open_read_def rsa_verify_def calculate_digest_def
      get_rsa_pss_salt_length_def calculate_max_pss_salt_length_def toy_crypto_def length_fit)

text \<open>
  The boxes: an exception of \<^verbatim>\<open>public_key.verify\<close> gives the "Verification failure"
  box and \<^verbatim>\<open>False\<close>; an exception before it gives the "Unknown error" box and
  \<^verbatim>\<open>False\<close>.
\<close>

lemma verify_pdf_rejected:
  assumes "pdf_path st \<noteq> []" and "public_key_path st \<noteq> []"
    and "open_read fs (public_key_path st) = Inr public_key_pem"
    and "load_pem_public_key L public_key_pem = Inr public_key"
    and "rsa_verify L public_key signature (hash L SHA256 content)
           (PSS (MGF1 SHA256) MAX_LENGTH) (Hash SHA256) = Inl e"
  shows "verify_pdf L fs st content signature =
           ([ShowInfo ''Verification failure''
               [Lit ''The PDF signature does not match the public key ('', Str e, Lit '')'']],
            False)"
  using assms by (simp add: verify_pdf_def)

lemma verify_pdf_key_unreadable:
  assumes "pdf_path st \<noteq> []" and "public_key_path st \<noteq> []"
    and "open_read fs (public_key_path st) = Inl e"
  shows "verify_pdf L fs st content signature =
           ([ShowError ''Unknown error'' [Lit ''Error while verifying: '', Str e]], False)"
  using assms by (simp add: verify_pdf_def)

lemma verify_pdf_key_malformed:
  assumes "pdf_path st \<noteq> []" and "public_key_path st \<noteq> []"
    and "open_read fs (public_key_path st) = Inr public_key_pem"
    and "load_pem_public_key L public_key_pem = Inl e"
  shows "verify_pdf L fs st content signature =
           ([ShowError ''Unknown error'' [Lit ''Error while verifying: '', Str e]], False)"
  using assms by (simp add: verify_pdf_def)

section \<open>Signing\<close>

lemma max_salt_4096: "calculate_max_pss_salt_length 4096 SHA256 = Inr 478"
  by (simp add: calculate_max_pss_salt_length_def)

text \<open>What \<^verbatim>\<open>private_key.sign\<close> computes for the arguments \<^verbatim>\<open>sign_pdf\<close> passes.\<close>

lemma rsa_sign_pss_sha256:
  assumes "calculate_max_pss_salt_length (private_key_size L key) SHA256 = Inr n"
  shows "rsa_sign L key data (PSS (MGF1 SHA256) MAX_LENGTH) (Hash SHA256) rand =
           Inr (rsa_pss_sign_digest L key SHA256 SHA256 n (hash L SHA256 data) rand)"
  using assms by (simp add: rsa_sign_def calculate_digest_def get_rsa_pss_salt_length_def)

lemma rsa_verify_pss_sha256:
  assumes "calculate_max_pss_salt_length (public_key_size L key) SHA256 = Inr n"
  shows "rsa_verify L key signature data (PSS (MGF1 SHA256) MAX_LENGTH) (Hash SHA256) =
           (if rsa_pss_verify_digest L key SHA256 SHA256 n signature (hash L SHA256 data)
            then Inr () else Inl InvalidSignature)"
  using assms by (simp add: rsa_verify_def calculate_digest_def get_rsa_pss_salt_length_def)

text \<open>
  Claim C6. For a private key of 4096 bits and every content, \<^verbatim>\<open>sign_pdf\<close> hashes the
  content with SHA-256 and has the package sign that hash with RSA-PSS, the mask
  generation function MGF1 over SHA-256 and the maximal salt length, which for this key
  is 4096 / 8 - 32 - 2 = 478 bytes; the signature it writes after the content and the
  marker has 512 bytes.
\<close>

theorem sign_pdf_algorithm:
  assumes "private_key_size L private_key = 4096"
    and "signature_length_ok L"
    and "open_read fs (pdf_path st) = Inr content"
  shows "\<exists>signature.
           rsa_sign L private_key (hash L SHA256 content)
             (PSS (MGF1 SHA256) MAX_LENGTH) (Hash SHA256) rand = Inr signature
         \<and> signature =
             rsa_pss_sign_digest L private_key SHA256 SHA256 (4096 div 8 - 32 - 2)
               (hash L SHA256 (hash L SHA256 content)) rand
         \<and> 4096 div 8 - 32 - 2 = (478 :: nat)
         \<and> length signature = 512
         \<and> sign_pdf L fs st private_key rand =
             open_write fs
               (str_replace (str_lit ''.pdf'') (str_lit ''_signed.pdf'') (pdf_path st))
               (content @ marker @ signature)"
proof -
  let ?signature = "rsa_pss_sign_digest L private_key SHA256 SHA256 478
      (hash L SHA256 (hash L SHA256 content)) rand"
  have salt: "calculate_max_pss_salt_length (private_key_size L private_key) SHA256 = Inr 478"
    by (simp add: assms(1) max_salt_4096)
  have sign: "rsa_sign L private_key (hash L SHA256 content)
      (PSS (MGF1 SHA256) MAX_LENGTH) (Hash SHA256) rand = Inr ?signature"
    by (rule rsa_sign_pss_sha256 [OF salt])
  have len: "length ?signature = 512"
    using assms(1,2) by (simp add: signature_length_ok_def)
  have "sign_pdf L fs st private_key rand =
      open_write fs (str_replace (str_lit ''.pdf'') (str_lit ''_signed.pdf'') (pdf_path st))
        (content @ marker @ ?signature)"
    by (simp add: sign_pdf_def assms(3) sign)
  with sign len show ?thesis
    by simp
qed

lemma toy_signature_length_ok: "signature_length_ok toy_crypto"
  by (simp add: signature_length_ok_def toy_crypto_def length_fit)

text \<open>The hypotheses of C6 hold for the 4096-bit key and the file \<^verbatim>\<open>"a"\<close> holding three bytes.\<close>

theorem sign_pdf_algorithm_witness:
  "private_key_size toy_crypto 4096 = 4096 \<and> signature_length_ok toy_crypto \<and>
   (\<exists>signature.
      rsa_sign toy_crypto 4096 (hash toy_crypto SHA256 [1, 2, 3])
        (PSS (MGF1 SHA256) MAX_LENGTH) (Hash SHA256) [9, 9] = Inr signature
      \<and> length signature = 512
      \<and> sign_pdf toy_crypto (Map.empty([0x61] \<mapsto> File [1, 2, 3]))
          \<lparr>pdf_path = [0x61], private_key_path = [], public_key_path = [], pin = []\<rparr>
          4096 [9, 9] =
          open_write (Map.empty([0x61] \<mapsto> File [1, 2, 3]))
            (str_replace (str_lit ''.pdf'') (str_lit ''_signed.pdf'') [0x61])
            ([1, 2, 3] @ marker @ signature))"
proof -
  have size: "private_key_size toy_crypto 4096 = 4096"
    by (simp add: toy_crypto_def)
  have pdf: "open_read (Map.empty([0x61] \<mapsto> File [1, 2, 3]))
      (pdf_path \<lparr>pdf_path = [0x61], private_key_path = [], public_key_path = [], pin = []\<rparr>)
      = Inr [1, 2, 3]"
    by (simp add: open_read_def)
  show ?thesis
    using sign_pdf_algorithm [OF size toy_signature_length_ok pdf, of "[9, 9]"]
      size toy_signature_length_ok
    by auto
qed

section \<open>The hash is hashed again\<close>

text \<open>
  With \<^verbatim>\<open>Prehashed\<close> the package would sign the data as it is; the programs pass
  \<^verbatim>\<open>hashes.SHA256()\<close>, so the package hashes what it is given.
\<close>

lemma rsa_sign_prehashed:
  assumes "calculate_max_pss_salt_length (private_key_size L key) SHA256 = Inr n"
    and "length data = 32"
  shows "rsa_sign L key data (PSS (MGF1 SHA256) MAX_LENGTH) (Prehashed SHA256) rand =
           Inr (rsa_pss_sign_digest L key SHA256 SHA256 n data rand)"
  using assms by (simp add: rsa_sign_def calculate_digest_def get_rsa_pss_salt_length_def)

text \<open>
  Claim C9. The data that \<^verbatim>\<open>sign_pdf\<close> and \<^verbatim>\<open>verify_pdf\<close> hand to the package is the
  SHA-256 hash of the content, and the package hashes it again: the signature written
  is the PSS signature whose digest is SHA-256 of SHA-256 of the content, that is the
  package's signature of the message SHA-256(content), and is not its signature of the
  content; and \<^verbatim>\<open>verify_pdf\<close> accepts a signature exactly when it verifies against that
  same digest of the digest.
\<close>

theorem double_hashing:
  assumes "calculate_max_pss_salt_length (private_key_size L private_key) SHA256 = Inr n"
    and "open_read fs (pdf_path st) = Inr content"
    and "pdf_path st' \<noteq> []" and "public_key_path st' \<noteq> []"
    and "open_read fs' (public_key_path st') = Inr public_key_pem"
    and "load_pem_public_key L public_key_pem = Inr public_key"
    and "calculate_max_pss_salt_length (public_key_size L public_key) SHA256 = Inr n'"
  shows "sign_pdf L fs st private_key rand =
           open_write fs
             (str_replace (str_lit ''.pdf'') (str_lit ''_signed.pdf'') (pdf_path st))
             (content @ marker @
              rsa_pss_sign_digest L private_key SHA256 SHA256 n
                (hash L SHA256 (hash L SHA256 content)) rand)
       \<and> rsa_sign L private_key (hash L SHA256 content)
           (PSS (MGF1 SHA256) MAX_LENGTH) (Hash SHA256) rand =
           Inr (rsa_pss_sign_digest L private_key SHA256 SHA256 n
                  (hash L SHA256 (hash L SHA256 content)) rand)
       \<and> rsa_sign L private_key content
           (PSS (MGF1 SHA256) MAX_LENGTH) (Hash SHA256) rand =
           Inr (rsa_pss_sign_digest L private_key SHA256 SHA256 n
                  (hash L SHA256 content) rand)
       \<and> snd (verify_pdf L fs' st' content' signature) =
           rsa_pss_verify_digest L public_key SHA256 SHA256 n' signature
             (hash L SHA256 (hash L SHA256 content'))"
proof (intro conjI)
  show "sign_pdf L fs st private_key rand =
           open_write fs
             (str_replace (str_lit ''.pdf'') (str_lit ''_signed.pdf'') (pdf_path st))
             (content @ marker @
              rsa_pss_sign_digest L private_key SHA256 SHA256 n
                (hash L SHA256 (hash L SHA256 content)) rand)"
    by (simp add: sign_pdf_def assms(2) rsa_sign_pss_sha256 [OF assms(1)])
  show "rsa_sign L private_key (hash L SHA256 content)
           (PSS (MGF1 SHA256) MAX_LENGTH) (Hash SHA256) rand =
         Inr (rsa_pss_sign_digest L private_key SHA256 SHA256 n
                (hash L SHA256 (hash L SHA256 content)) rand)"
    by (rule rsa_sign_pss_sha256 [OF assms(1)])
  show "rsa_sign L private_key content
           (PSS (MGF1 SHA256) MAX_LENGTH) (Hash SHA256) rand =
         Inr (rsa_pss_sign_digest L private_key SHA256 SHA256 n (hash L SHA256 content) rand)"
    by (rule rsa_sign_pss_sha256 [OF assms(1)])
  show "snd (verify_pdf L fs' st' content' signature) =
           rsa_pss_verify_digest L public_key SHA256 SHA256 n' signature
             (hash L SHA256 (hash L SHA256 content'))"
    by (simp add: verify_pdf_def assms(3-6) rsa_verify_pss_sha256 [OF assms(7)])
qed

text \<open>
  The hypotheses of C9 hold for the 4096-bit key: signing the file \<^verbatim>\<open>"a"\<close> succeeds, and
  verification with the public key file \<^verbatim>\<open>"p"\<close> is decided by the digest of the digest.
\<close>

theorem double_hashing_witness:
  "calculate_max_pss_salt_length (private_key_size toy_crypto 4096) SHA256 = Inr 478
   \<and> rsa_sign toy_crypto 4096 (hash toy_crypto SHA256 [1, 2, 3])
       (PSS (MGF1 SHA256) MAX_LENGTH) (Hash SHA256) [9, 9] =
       Inr (rsa_pss_sign_digest toy_crypto 4096 SHA256 SHA256 478
              (hash toy_crypto SHA256 (hash toy_crypto SHA256 [1, 2, 3])) [9, 9])
   \<and> snd (verify_pdf toy_crypto (Map.empty([0x70] \<mapsto> File []))
            \<lparr>pdf_path = [0x61], private_key_path = [], public_key_path = [0x70], pin = []\<rparr>
            [1, 2, 3] [4, 5, 6]) =
       rsa_pss_verify_digest toy_crypto 4096 SHA256 SHA256 478 [4, 5, 6]
         (hash toy_crypto SHA256 (hash toy_crypto SHA256 [1, 2, 3]))"
proof -
  let ?st = "\<lparr>pdf_path = [0x61], private_key_path = [], public_key_path = [0x70], pin = []\<rparr>"
  have priv: "calculate_max_pss_salt_length (private_key_size toy_crypto 4096) SHA256 = Inr 478"
    by (simp add: toy_crypto_def max_salt_4096)
  have pdf: "open_read (Map.empty([0x61] \<mapsto> File [1, 2, 3])) (pdf_path ?st) = Inr [1, 2, 3]"
    by (simp add: open_read_def)
  have fields: "pdf_path ?st \<noteq> []" "public_key_path ?st \<noteq> []"
    by simp_all
  have pem: "open_read (Map.empty([0x70] \<mapsto> File [])) (public_key_path ?st) = Inr []"
    by (simp add: open_read_def)
  have load: "load_pem_public_key toy_crypto [] = Inr 4096"
    by (simp add: toy_crypto_def)
  have pub: "calculate_max_pss_salt_length (public_key_size toy_crypto 4096) SHA256 = Inr 478"
    by (simp add: toy_crypto_def max_salt_4096)
  show ?thesis
    using double_hashing [OF priv pdf fields pem load pub, of "[9, 9]" "[1, 2, 3]" "[4, 5, 6]"]
      priv
    by simp
qed

section \<open>The path checks of the second variant\<close>

text \<open>
  In \<^verbatim>\<open>pades-app-main.py\<close> the sign button stops before any decryption when a field is
  empty or when one of the three strings, the PIN included, is not an existing path.
\<close>

lemma pades_app_sign_empty_field:
  assumes "pdf_path st = [] \<or> private_key_path st = [] \<or> pin st = []"
  shows "pades_app_sign_pdf_button L fs st rand =
           ([ShowError ''Error'' [Lit ''One or more fields empty'']], fs)"
  using assms by (simp add: pades_app_sign_pdf_button_def)

lemma pades_app_sign_missing_path:
  assumes "pdf_path st \<noteq> []" and "private_key_path st \<noteq> []" and "pin st \<noteq> []"
    and "\<not> (path_exists fs (pdf_path st) \<and> path_exists fs (private_key_path st) \<and>
            path_exists fs (pin st))"
  shows "pades_app_sign_pdf_button L fs st rand =
           ([ShowError ''Error''
               [Lit ''One or more fields refer to a path that no longer exists'']], fs)"
  using assms by (auto simp: pades_app_sign_pdf_button_def)

text \<open>
  Claim C10, as amended. In the variant, when the three fields are filled in and the PIN
  is not the name of an existing file or directory, the sign button shows the
  missing-path error and changes nothing; the outcome is the same for every
  cryptographic backend and every salt, since the key file is never decrypted.
\<close>

theorem pin_checked_as_path:
  assumes "pdf_path st \<noteq> []" and "private_key_path st \<noteq> []" and "pin st \<noteq> []"
    and "\<not> path_exists fs (pin st)"
  shows "pades_app_sign_pdf_button L fs st rand =
           ([ShowError ''Error''
               [Lit ''One or more fields refer to a path that no longer exists'']], fs)"
  using assms by (simp add: pades_app_sign_pdf_button_def)

text \<open>
  The PIN \<^verbatim>\<open>"123456"\<close> with an existing document \<^verbatim>\<open>"a"\<close> and an existing key file
  \<^verbatim>\<open>"k"\<close>: no path is named \<^verbatim>\<open>"123456"\<close>, and signing is refused.
\<close>

theorem pin_checked_as_path_witness:
  "\<not> path_exists (Map.empty([0x61] \<mapsto> File [1, 2, 3], [0x6B] \<mapsto> File (replicate 32 0)))
       [0x31, 0x32, 0x33, 0x34, 0x35, 0x36]
   \<and> fst (pades_app_sign_pdf_button toy_crypto
        (Map.empty([0x61] \<mapsto> File [1, 2, 3], [0x6B] \<mapsto> File (replicate 32 0)))
        \<lparr>pdf_path = [0x61], private_key_path = [0x6B], public_key_path = [],
         pin = [0x31, 0x32, 0x33, 0x34, 0x35, 0x36]\<rparr> []) =
      [ShowError ''Error''
         [Lit ''One or more fields refer to a path that no longer exists'']]"
proof -
  let ?fs = "Map.empty([0x61 :: nat] \<mapsto> File [1, 2, 3], [0x6B] \<mapsto> File (replicate 32 0))"
  let ?st = "\<lparr>pdf_path = [0x61], private_key_path = [0x6B], public_key_path = [],
         pin = [0x31, 0x32, 0x33, 0x34, 0x35, 0x36]\<rparr>"
  have fields: "pdf_path ?st \<noteq> []" "private_key_path ?st \<noteq> []" "pin ?st \<noteq> []"
    by simp_all
  have missing: "\<not> path_exists ?fs (pin ?st)"
    by (simp add: path_exists_def)
  show ?thesis
    using pin_checked_as_path [OF fields missing, of toy_crypto "[]"] missing
    by simp
qed

text \<open>
  Claim C10 as stated fails for the empty PIN: it is not the name of an existing path,
  and signing is refused, but with the empty-fields error of the first check and not
  with the missing-path error.
\<close>

theorem pin_checked_as_path_counterexample:
  "\<not> path_exists (Map.empty([0x61] \<mapsto> File [1, 2, 3], [0x6B] \<mapsto> File (replicate 32 0))) []
   \<and> fst (pades_app_sign_pdf_button toy_crypto
        (Map.empty([0x61] \<mapsto> File [1, 2, 3], [0x6B] \<mapsto> File (replicate 32 0)))
        \<lparr>pdf_path = [0x61], private_key_path = [0x6B], public_key_path = [], pin = []\<rparr> [])
      = [ShowError ''Error'' [Lit ''One or more fields empty'']]
   \<and> fst (pades_app_sign_pdf_button toy_crypto
        (Map.empty([0x61] \<mapsto> File [1, 2, 3], [0x6B] \<mapsto> File (replicate 32 0)))
        \<lparr>pdf_path = [0x61], private_key_path = [0x6B], public_key_path = [], pin = []\<rparr> [])
      \<noteq> [ShowError ''Error''
           [Lit ''One or more fields refer to a path that no longer exists'']]"
  by (simp add: pades_app_sign_pdf_button_def path_exists_def)

section \<open>Further properties\<close>

text \<open>
  The extraction on any file in which the marker occurs: the content is the bytes before
  the first occurrence, and the signature is the bytes after it, up to the next occurrence
  of the marker among them or, when there is none, to the end.
\<close>

theorem extraction_between_markers:
  assumes "open_read fs (pdf_path st) = Inr pdf_data"
    and "bytes_find marker pdf_data = Some i"
  shows "\<exists>content signature rest.
           extract_content_and_signature fs st = ([], Inr (content, signature))
         \<and> pdf_data = content @ marker @ rest
         \<and> \<not> bytes_contains marker (content @ butlast marker)
         \<and> (case bytes_find marker rest of
              None \<Rightarrow> signature = rest
            | Some j \<Rightarrow> signature = take j rest)"
proof -
  let ?content = "take i pdf_data"
  let ?rest = "drop (i + length marker) pdf_data"
  let ?signature = "case bytes_find marker ?rest of None \<Rightarrow> ?rest | Some j \<Rightarrow> take j ?rest"
  have ex: "extract_content_and_signature fs st = ([], Inr (?content, ?signature))"
    using extract_with_marker [OF assms] by (simp add: Let_def)
  from assms(2) have "prefix marker (drop i pdf_data)"
    by (rule bytes_find_occurs)
  then have "drop i pdf_data = marker @ drop (length marker) (drop i pdf_data)"
    by (metis append_eq_conv_conj prefixE)
  then have "drop i pdf_data = marker @ ?rest"
    by (simp add: add.commute)
  then have whole: "pdf_data = ?content @ marker @ ?rest"
    by (metis append_take_drop_id)
  have first: "\<not> bytes_contains marker (?content @ butlast marker)"
  proof
    assume "bytes_contains marker (?content @ butlast marker)"
    then obtain j where j: "bytes_find marker (?content @ butlast marker) = Some j"
      by (auto simp: bytes_contains_def)
    from bytes_find_bound [OF j] have "j + length marker \<le> length ?content + (length marker - 1)"
      by simp
    moreover from bytes_find_bound [OF assms(2)] have li: "length ?content = i"
      by simp
    ultimately have "j < i"
      by (simp add: length_marker)
    define A where "A = ?content @ butlast marker"
    define B where "B = [last marker] @ ?rest"
    have "butlast marker @ [last marker] = marker"
      using marker_nonempty by simp
    then have "A @ B = ?content @ marker @ ?rest"
      unfolding A_def B_def by (metis append.assoc)
    with whole have AB: "pdf_data = A @ B"
      by simp
    from bytes_find_occurs [OF j] have "prefix marker (drop j A)"
      by (simp only: A_def)
    then have "prefix marker (drop j A @ drop (j - length A) B)"
      by (rule prefix_prefix)
    then have "prefix marker (drop j pdf_data)"
      by (simp only: AB drop_append)
    with bytes_find_first [OF assms(2) \<open>j < i\<close>] show False ..
  qed
  have "case bytes_find marker ?rest of
          None \<Rightarrow> ?signature = ?rest
        | Some j \<Rightarrow> ?signature = take j ?rest"
    by (simp split: option.splits)
  with ex whole first show ?thesis
    by blast
qed

text \<open>The file \<^verbatim>\<open>b"A" + marker + b"B" + marker + b"C"\<close> again: the marker is found at index 1.\<close>

theorem extraction_between_markers_witness:
  "bytes_find marker ([0x41] @ marker @ [0x42] @ marker @ [0x43]) = Some 1
   \<and> extract_content_and_signature
       (Map.empty([0x61] \<mapsto> File ([0x41] @ marker @ [0x42] @ marker @ [0x43])))
       \<lparr>pdf_path = [0x61], private_key_path = [], public_key_path = [], pin = []\<rparr>
     = ([], Inr ([0x41], [0x42]))"
proof -
  let ?data = "[0x41] @ marker @ [0x42] @ marker @ [0x43]"
  let ?fs = "Map.empty([0x61 :: nat] \<mapsto> File ?data)"
  let ?st = "\<lparr>pdf_path = [0x61], private_key_path = [], public_key_path = [], pin = []\<rparr>"
  have rd: "open_read ?fs (pdf_path ?st) = Inr ?data"
    by (simp add: open_read_def)
  have found: "bytes_find marker ?data = Some 1"
    by (simp add: marker_def)
  obtain content signature rest where
    ex: "extract_content_and_signature ?fs ?st = ([], Inr (content, signature))"
    and whole: "?data = content @ marker @ rest"
    using extraction_between_markers [OF rd found] by blast
  have "extract_content_and_signature ?fs ?st = ([], Inr ([0x41], [0x42]))"
    by (simp add: extract_content_and_signature_def open_read_def
        bytes_contains_def marker_def bytes_split.simps)
  with ex found show ?thesis
    by simp
qed

text \<open>
  The protected blob is the 16-byte IV followed by whole 16-byte blocks, one more than
  the serialized key has complete blocks: it has at least 32 bytes.
\<close>

lemma length_pkcs7_pad_exact:
  "length (pkcs7_pad 128 data) = (length data div 16 + 1) * 16"
proof -
  have "length data + (16 - length data mod 16) = (length data div 16 + 1) * 16"
    by presburger
  then show ?thesis
    by (simp add: pkcs7_pad_def Let_def)
qed

theorem blob_format:
  assumes "block_cipher_ok L" and "hash_ok L" and "length iv = 16"
    and "encrypt_private_key L iv pem p = Inr blob"
  shows "take 16 blob = iv
       \<and> length blob = 16 + (length pem div 16 + 1) * 16
       \<and> 32 \<le> length blob"
proof -
  from assms(4) obtain pin_bytes where enc: "str_encode p = Inr pin_bytes"
    by (cases "str_encode p") (auto simp: encrypt_private_key_def)
  define key where "key = hash L SHA256 pin_bytes"
  let ?padded = "pkcs7_pad 128 pem"
  let ?ct = "cbc_encrypt (aes_encrypt_block L key) iv ?padded"
  have "encrypt_private_key L iv pem p = Inr (iv @ ?ct)"
    using assms(1-3) enc key_def refl by (rule vault_round_trip(1))
  with assms(4) have blob: "blob = iv @ ?ct"
    by simp
  have "length key = 32"
    using assms(2) by (simp add: key_def hash_ok_def)
  with assms(1) have "\<forall>b. length b = 16 \<longrightarrow>
      length (aes_encrypt_block L key b) = 16 \<and>
      aes_decrypt_block L key (aes_encrypt_block L key b) = b"
    by (simp add: block_cipher_ok_def)
  then have "length ?ct = length ?padded"
    using assms(3) length_pkcs7_pad by (rule cbc_round_trip [THEN conjunct1])
  then have "length ?ct = (length pem div 16 + 1) * 16"
    by (simp add: length_pkcs7_pad_exact)
  with blob assms(3) show ?thesis
    by simp
qed

text \<open>A three-byte key under the PIN \<^verbatim>\<open>"123456"\<close>: the blob has exactly 32 bytes.\<close>

theorem blob_format_witness:
  "block_cipher_ok toy_crypto \<and> hash_ok toy_crypto \<and>
   (\<exists>blob. encrypt_private_key toy_crypto (replicate 16 7) [0x6B, 0x65, 0x79]
              [0x31, 0x32, 0x33, 0x34, 0x35, 0x36] = Inr blob
          \<and> take 16 blob = replicate 16 7 \<and> length blob = 32)"
proof -
  have iv: "length (replicate 16 (7 :: byte)) = 16"
    by simp
  obtain blob where
    blob: "encrypt_private_key toy_crypto (replicate 16 7) [0x6B, 0x65, 0x79]
             [0x31, 0x32, 0x33, 0x34, 0x35, 0x36] = Inr blob"
    using vault_round_trip(1) [OF toy_block_cipher_ok toy_hash_ok iv utf8_examples(1) refl refl]
    by blast
  from blob_format [OF toy_block_cipher_ok toy_hash_ok iv blob] blob
    toy_block_cipher_ok toy_hash_ok
  show ?thesis
    by auto
qed


text \<open>
  Sign and verify agree: when the package's verification accepts what its signing
  produced for the same 32-byte digest and the same parameters, \<^verbatim>\<open>verify_pdf\<close> accepts
  a content together with the signature that \<^verbatim>\<open>sign_pdf\<close> computes for it.
\<close>

theorem sign_then_verify:
  assumes "hash_ok L"
    and "calculate_max_pss_salt_length (private_key_size L private_key) SHA256 = Inr n"
    and "public_key_size L public_key = private_key_size L private_key"
    and "\<forall>d rand. length d = 32 \<longrightarrow>
           rsa_pss_verify_digest L public_key SHA256 SHA256 n
             (rsa_pss_sign_digest L private_key SHA256 SHA256 n d rand) d"
    and "pdf_path st \<noteq> []" and "public_key_path st \<noteq> []"
    and "open_read fs (public_key_path st) = Inr public_key_pem"
    and "load_pem_public_key L public_key_pem = Inr public_key"
    and "rsa_sign L private_key (hash L SHA256 content)
           (PSS (MGF1 SHA256) MAX_LENGTH) (Hash SHA256) rand = Inr signature"
  shows "verify_pdf L fs st content signature =
           ([ShowInfo ''Verification success''
               [Lit ''Signature has been verified with success'']], True)"
proof -
  let ?d = "hash L SHA256 (hash L SHA256 content)"
  from assms(9) have "signature = rsa_pss_sign_digest L private_key SHA256 SHA256 n ?d rand"
    by (simp add: rsa_sign_pss_sha256 [OF assms(2)])
  moreover have "length ?d = 32"
    using assms(1) by (simp add: hash_ok_def)
  ultimately have "rsa_pss_verify_digest L public_key SHA256 SHA256 n signature ?d"
    using assms(4) by simp
  moreover have "calculate_max_pss_salt_length (public_key_size L public_key) SHA256 = Inr n"
    by (simp add: assms(2,3))
  ultimately show ?thesis
    using assms(5-8) by (simp add: verify_pdf_def rsa_verify_pss_sha256)
qed

text \<open>The instance of the parameters signs three bytes and accepts the result.\<close>

theorem sign_then_verify_witness:
  "hash_ok toy_crypto
   \<and> rsa_sign toy_crypto 4096 (hash toy_crypto SHA256 [1, 2, 3])
       (PSS (MGF1 SHA256) MAX_LENGTH) (Hash SHA256) [9, 9] =
       Inr (fit 512 (fit 32 (fit 32 [1, 2, 3]) @ [9, 9]))
   \<and> verify_pdf toy_crypto (Map.empty([0x70] \<mapsto> File []))
       \<lparr>pdf_path = [0x61], private_key_path = [], public_key_path = [0x70], pin = []\<rparr>
       [1, 2, 3] (fit 512 (fit 32 (fit 32 [1, 2, 3]) @ [9, 9])) =
       ([ShowInfo ''Verification success''
           [Lit ''Signature has been verified with success'']], True)"
proof -
  let ?st = "\<lparr>pdf_path = [0x61], private_key_path = [], public_key_path = [0x70], pin = []\<rparr>"
  have salt: "calculate_max_pss_salt_length (private_key_size toy_crypto 4096) SHA256 = Inr 478"
    by (simp add: toy_crypto_def max_salt_4096)
  have sizes: "public_key_size toy_crypto 4096 = private_key_size toy_crypto 4096"
    by (simp add: toy_crypto_def)
  have scheme: "\<forall>d rand. length d = 32 \<longrightarrow>
      rsa_pss_verify_digest toy_crypto 4096 SHA256 SHA256 478
        (rsa_pss_sign_digest toy_crypto 4096 SHA256 SHA256 478 d rand) d"
    by (simp add: toy_crypto_def length_fit) (simp add: fit_def)
  have fields: "pdf_path ?st \<noteq> []" "public_key_path ?st \<noteq> []"
    by simp_all
  have pem: "open_read (Map.empty([0x70] \<mapsto> File [])) (public_key_path ?st) = Inr []"
    by (simp add: open_read_def)
  have load: "load_pem_public_key toy_crypto [] = Inr 4096"
    by (simp add: toy_crypto_def)
  have sign: "rsa_sign toy_crypto 4096 (hash toy_crypto SHA256 [1, 2, 3])
      (PSS (MGF1 SHA256) MAX_LENGTH) (Hash SHA256) [9, 9] =
      Inr (fit 512 (fit 32 (fit 32 [1, 2, 3]) @ [9, 9]))"
    by (simp add: rsa_sign_pss_sha256 [OF salt]) (simp add: toy_crypto_def)
  show ?thesis
    using sign_then_verify [OF toy_hash_ok salt sizes scheme fields pem load sign]
      toy_hash_ok sign
    by simp
qed


text \<open>
  Where the signed file goes: \<^verbatim>\<open>replace\<close> changes every \<^verbatim>\<open>".pdf"\<close> of the path, and a
  path without \<^verbatim>\<open>".pdf"\<close> is left as it is, so that the signed container is written over
  the document itself.
\<close>

lemma str_replace_absent: "\<not> bytes_contains old s \<Longrightarrow> str_replace old new s = s"
  by (subst str_replace.simps) (simp add: bytes_contains_def)

theorem sign_pdf_overwrites_document:
  assumes "\<not> bytes_contains (str_lit ''.pdf'') (pdf_path st)"
    and "open_read fs (pdf_path st) = Inr content"
    and "rsa_sign L private_key (hash L SHA256 content)
           (PSS (MGF1 SHA256) MAX_LENGTH) (Hash SHA256) rand = Inr signature"
  shows "sign_pdf L fs st private_key rand =
           Inr (fs(pdf_path st \<mapsto> File (content @ marker @ signature)))"
proof -
  have "str_replace (str_lit ''.pdf'') (str_lit ''_signed.pdf'') (pdf_path st) = pdf_path st"
    using assms(1) by (rule str_replace_absent)
  moreover from assms(2) have "fs (pdf_path st) \<noteq> Some Directory"
    by (auto simp: open_read_def)
  ultimately show ?thesis
    using assms(2,3)
    by (simp add: sign_pdf_def open_write_def Let_def split: option.splits fs_entry.splits)
qed

text \<open>The path \<^verbatim>\<open>"doc.PDF"\<close> does not contain \<^verbatim>\<open>".pdf"\<close>: the document is replaced.\<close>

theorem sign_pdf_overwrites_document_witness:
  "\<not> bytes_contains (str_lit ''.pdf'') (str_lit ''doc.PDF'')
   \<and> sign_pdf toy_crypto (Map.empty(str_lit ''doc.PDF'' \<mapsto> File [1, 2, 3]))
       \<lparr>pdf_path = str_lit ''doc.PDF'', private_key_path = [], public_key_path = [],
        pin = []\<rparr> 4096 [9, 9] =
     Inr ((Map.empty(str_lit ''doc.PDF'' \<mapsto> File [1, 2, 3]))
            (str_lit ''doc.PDF'' \<mapsto>
               File ([1, 2, 3] @ marker @ fit 512 (fit 32 (fit 32 [1, 2, 3]) @ [9, 9]))))"
proof -
  let ?st = "\<lparr>pdf_path = str_lit ''doc.PDF'', private_key_path = [], public_key_path = [],
        pin = []\<rparr>"
  have absent: "\<not> bytes_contains (str_lit ''.pdf'') (pdf_path ?st)"
    by (simp add: bytes_contains_def str_lit_def)
  have rd: "open_read (Map.empty(str_lit ''doc.PDF'' \<mapsto> File [1, 2, 3])) (pdf_path ?st)
      = Inr [1, 2, 3]"
    by (simp add: open_read_def)
  have salt: "calculate_max_pss_salt_length (private_key_size toy_crypto 4096) SHA256 = Inr 478"
    by (simp add: toy_crypto_def max_salt_4096)
  have sign: "rsa_sign toy_crypto 4096 (hash toy_crypto SHA256 [1, 2, 3])
      (PSS (MGF1 SHA256) MAX_LENGTH) (Hash SHA256) [9, 9] =
      Inr (fit 512 (fit 32 (fit 32 [1, 2, 3]) @ [9, 9]))"
    by (simp add: rsa_sign_pss_sha256 [OF salt]) (simp add: toy_crypto_def)
  show ?thesis
    using sign_pdf_overwrites_document [OF absent rd sign] absent
    by simp
qed

text \<open>
  In the second variant a key file that exists and cannot be read (a directory) gives
  the two boxes "Private key not found" and "Failure", and no PIN error.
\<close>

theorem pades_app_unreadable_key:
  assumes "pdf_path st \<noteq> []" and "private_key_path st \<noteq> []" and "pin st \<noteq> []"
    and "path_exists fs (pdf_path st)" and "path_exists fs (pin st)"
    and "fs (private_key_path st) = Some Directory"
  shows "pades_app_sign_pdf_button L fs st rand =
           ([ShowError ''Private key not found''
               [Lit ''There is no private key at the specified location''],
             ShowError ''Failure'' [Lit ''Couldn't sign the pdf'']], fs)"
  using assms
  by (simp add: pades_app_sign_pdf_button_def pades_app_decrypt_private_key_def
      get_encrypted_private_key_def open_read_def path_exists_def)

text \<open>The key path \<^verbatim>\<open>"k"\<close> is a directory, and the PIN \<^verbatim>\<open>"a"\<close> names the document.\<close>

theorem pades_app_unreadable_key_witness:
  "fst (pades_app_sign_pdf_button toy_crypto
     (Map.empty([0x61] \<mapsto> File [1, 2, 3], [0x6B] \<mapsto> Directory))
     \<lparr>pdf_path = [0x61], private_key_path = [0x6B], public_key_path = [], pin = [0x61]\<rparr> [])
   = [ShowError ''Private key not found''
        [Lit ''There is no private key at the specified location''],
      ShowError ''Failure'' [Lit ''Couldn't sign the pdf'']]"
proof -
  let ?fs = "Map.empty([0x61 :: nat] \<mapsto> File [1, 2, 3], [0x6B] \<mapsto> Directory)"
  let ?st = "\<lparr>pdf_path = [0x61], private_key_path = [0x6B], public_key_path = [],
      pin = [0x61]\<rparr>"
  have fields: "pdf_path ?st \<noteq> []" "private_key_path ?st \<noteq> []" "pin ?st \<noteq> []"
    by simp_all
  have ex: "path_exists ?fs (pdf_path ?st)" "path_exists ?fs (pin ?st)"
    by (simp_all add: path_exists_def)
  have dir: "?fs (private_key_path ?st) = Some Directory"
    by simp
  have "pades_app_sign_pdf_button toy_crypto ?fs ?st [] =
      ([ShowError ''Private key not found''
          [Lit ''There is no private key at the specified location''],
        ShowError ''Failure'' [Lit ''Couldn't sign the pdf'']], ?fs)"
    by (rule pades_app_unreadable_key [OF fields ex dir])
  then show ?thesis
    by (simp only: fst_conv)
qed

text \<open>
  From signing to extraction: when \<^verbatim>\<open>sign_pdf\<close> succeeds, the file at its output path,
  chosen as the document to verify, gives back the content and the signature, under the
  conditions of the round trip.
\<close>

lemma sign_then_extract:
  assumes "open_read fs (pdf_path st) = Inr content"
    and "rsa_sign L private_key (hash L SHA256 content)
           (PSS (MGF1 SHA256) MAX_LENGTH) (Hash SHA256) rand = Inr signature"
    and "sign_pdf L fs st private_key rand = Inr fs'"
    and "\<not> bytes_contains marker content"
    and "\<not> suffix (butlast marker) content"
    and "\<not> bytes_contains marker signature"
  shows "extract_content_and_signature fs'
           (st\<lparr>pdf_path :=
                 str_replace (str_lit ''.pdf'') (str_lit ''_signed.pdf'') (pdf_path st)\<rparr>) =
           ([], Inr (content, signature))"
proof -
  let ?out = "str_replace (str_lit ''.pdf'') (str_lit ''_signed.pdf'') (pdf_path st)"
  from assms(1-3) have "open_write fs ?out (content @ marker @ signature) = Inr fs'"
    by (simp add: sign_pdf_def)
  then have "fs' = fs(?out \<mapsto> File (content @ marker @ signature))"
    by (auto simp: open_write_def split: option.splits fs_entry.splits)
  then have rd: "open_read fs' (pdf_path (st\<lparr>pdf_path := ?out\<rparr>)) =
      Inr (content @ marker @ signature)"
    by (simp add: open_read_def)
  have "\<not> bytes_contains marker (content @ butlast marker)"
    using assms(4,5) by (rule marker_not_across)
  then show ?thesis
    using assms(6) rd by (rule extract_built_container)
qed

text \<open>
  The conditions of the round trip are the weakest ones: whenever the extraction gives
  back the content and the signature that were written, the content neither contains the
  marker nor ends with its first 20 bytes, and the signature does not contain it.
\<close>

lemma marker_in_doubled_head: "bytes_contains marker (butlast marker @ butlast marker)"
  by (simp add: bytes_contains_def marker_def)

lemma container_round_trip_only_if:
  assumes "extract_content_and_signature
             (fs(pdf_path st \<mapsto> File (content @ marker @ signature))) st =
           ([], Inr (content, signature))"
  shows "\<not> bytes_contains marker content \<and> \<not> suffix (butlast marker) content \<and>
         \<not> bytes_contains marker signature"
proof -
  let ?data = "content @ marker @ signature"
  let ?fs = "fs(pdf_path st \<mapsto> File ?data)"
  have "sublist marker ?data"
    by simp
  then obtain i where i: "bytes_find marker ?data = Some i"
    using bytes_find_None_iff [of marker ?data] by (cases "bytes_find marker ?data") auto
  obtain c s rest where ex: "extract_content_and_signature ?fs st = ([], Inr (c, s))"
    and whole: "?data = c @ marker @ rest"
    and first: "\<not> bytes_contains marker (c @ butlast marker)"
    and sig: "case bytes_find marker rest of None \<Rightarrow> s = rest | Some j \<Rightarrow> s = take j rest"
    using extraction_between_markers [OF open_read_upd i] by blast
  from ex assms have c: "c = content" and s: "s = signature"
    by simp_all
  from whole c have rest: "rest = signature"
    by simp
  have no_sig: "\<not> bytes_contains marker signature"
  proof
    assume "bytes_contains marker signature"
    then obtain j where j: "bytes_find marker signature = Some j"
      by (auto simp: bytes_contains_def)
    with sig rest s have "signature = take j signature"
      by simp
    then have "length signature \<le> j"
      by (metis length_take min.cobounded2)
    with bytes_find_bound [OF j] show False
      by (simp add: length_marker)
  qed
  from first c have across: "\<not> sublist marker (content @ butlast marker)"
    by (simp add: bytes_contains_sublist)
  then have no_content: "\<not> bytes_contains marker content"
    by (auto simp: bytes_contains_sublist sublist_append)
  have "\<not> suffix (butlast marker) content"
  proof
    assume "suffix (butlast marker) content"
    then obtain u where "content = u @ butlast marker"
      by (auto simp: suffix_def)
    then have "content @ butlast marker = u @ (butlast marker @ butlast marker)"
      by simp
    moreover have "sublist marker (butlast marker @ butlast marker)"
      using marker_in_doubled_head by (simp add: bytes_contains_sublist)
    ultimately have "sublist marker (content @ butlast marker)"
      by (metis sublist_append)
    with across show False ..
  qed
  with no_content no_sig show ?thesis
    by simp
qed

end
